theory Spec2Isabelle
  imports Complex_Main "HOL-Library.AList"
begin

section \<open>The syntax tree handed over by the parser\<close>

text \<open>
  The analyzer works on a Babel syntax tree. The node kinds that the analysed functions
  inspect are constructors of their own, named as in Babel; every other node kind is an
  \<open>OtherNode\<close> carrying its type name and its child nodes, so that a traversal still
  reaches everything below it. Optional children (\<open>init\<close>, \<open>alternate\<close>, the argument of a
  \<open>return\<close>, the \<open>id\<close> of a function, a hole of an array pattern) are options.
  A numeric literal carries its value; operators are kept as the strings Babel stores.
\<close>

datatype node =
    Identifier string
  | BooleanLiteral bool
  | NumericLiteral real
  | StringLiteral string
  | NullLiteral
  | UnaryExpression string node
  | BinaryExpression string node node
  | LogicalExpression string node node
  | AssignmentExpression string node node
  | MemberExpression node node bool
  | CallExpression node "node list"
  | ArrowFunctionExpression "node list" node
  | FunctionExpression "node option" "node list" node
  | FunctionDeclaration "node option" "node list" node
  | ObjectExpression "node list"
  | ObjectProperty node node bool
  | ObjectMethod node "node list" node bool
  | SpreadElement node
  | ArrayExpression "node list"
  | ExpressionStatement node
  | BlockStatement "node list"
  | IfStatement node node "node option"
  | ReturnStatement "node option"
  | VariableDeclaration "node list"
  | VariableDeclarator node "node option"
  | ArrayPattern "node option list"
  | ObjectPattern "node list"
  | RestElement node
  | AssignmentPattern node node
  | OtherNode string "node list"

fun optNode :: "node option \<Rightarrow> node list" where
  "optNode None = []"
| "optNode (Some n) = [n]"

text \<open>The child nodes, in the order in which Babel's traversal visits them.\<close>

fun children :: "node \<Rightarrow> node list" where
  "children (UnaryExpression _ a) = [a]"
| "children (BinaryExpression _ l r) = [l, r]"
| "children (LogicalExpression _ l r) = [l, r]"
| "children (AssignmentExpression _ l r) = [l, r]"
| "children (MemberExpression ob pr _) = [ob, pr]"
| "children (CallExpression c as) = c # as"
| "children (ArrowFunctionExpression ps b) = ps @ [b]"
| "children (FunctionExpression i ps b) = optNode i @ ps @ [b]"
| "children (FunctionDeclaration i ps b) = optNode i @ ps @ [b]"
| "children (ObjectExpression ps) = ps"
| "children (ObjectProperty k v _) = [k, v]"
| "children (ObjectMethod k ps b _) = k # ps @ [b]"
| "children (SpreadElement a) = [a]"
| "children (ArrayExpression es) = es"
| "children (ExpressionStatement e) = [e]"
| "children (BlockStatement ss) = ss"
| "children (IfStatement t c a) = [t, c] @ optNode a"
| "children (ReturnStatement a) = optNode a"
| "children (VariableDeclaration ds) = ds"
| "children (VariableDeclarator i init) = i # optNode init"
| "children (ArrayPattern es) = concat (map optNode es)"
| "children (ObjectPattern ps) = ps"
| "children (RestElement a) = [a]"
| "children (AssignmentPattern l r) = [l, r]"
| "children (OtherNode _ cs) = cs"
| "children (Identifier _) = []"
| "children (BooleanLiteral _) = []"
| "children (NumericLiteral _) = []"
| "children (StringLiteral _) = []"
| "children NullLiteral = []"

text \<open>
  Babel compares nodes by reference. In the model a node's identity is its position: the
  list of child indices leading to it from the root of the tree under analysis. A
  reference \<open>nref\<close> is a node together with its position, and a \<open>path\<close> is Babel's
  \<open>NodePath\<close>: the node first, then its parents outwards, the root of the traversal last.
\<close>

type_synonym pos = "nat list"
type_synonym nref = "pos \<times> node"
type_synonym path = "nref list"

definition childRefs :: "nref \<Rightarrow> nref list" where
  "childRefs r = map (\<lambda>(i, c). (fst r @ [i], c)) (enumerate 0 (children (snd r)))"

lemma set_optNode [simp]: "c \<in> set (optNode x) \<longleftrightarrow> x = Some c"
  by (cases x) auto

lemma children_size: "c \<in> set (children n) \<Longrightarrow> size c < size n"
proof (cases n)
  case (ArrayPattern es)
  assume "c \<in> set (children n)"
  with ArrayPattern have "Some c \<in> set es"
    by auto
  then have "size_option size (Some c) \<le> size_list (size_option size) es"
    by (rule size_list_estimation') simp
  with ArrayPattern show ?thesis by simp
qed (auto dest: size_list_estimation' [where f = size and y = "size c"])

lemma childRefs_size: "c \<in> set (childRefs r) \<Longrightarrow> size (snd c) < size (snd r)"
  by (auto simp: childRefs_def in_set_enumerate_eq intro!: children_size)

text \<open>
  \<open>walk\<close> lists the paths of all nodes strictly below the head of the given path, each
  node before the nodes below it and children from left to right: the order in which
  \<open>traverse\<close> enters them. \<open>traverse root\<close> starts at a root, which is itself not
  visited and is the last entry of every path.
\<close>

function walk :: "path \<Rightarrow> path list" where
  "walk [] = []"
| "walk (r # anc) = concat (map (\<lambda>c. (c # r # anc) # walk (c # r # anc)) (childRefs r))"
  by pat_completeness auto
termination
  by (relation "measure (\<lambda>p. case p of [] \<Rightarrow> 0 | r # _ \<Rightarrow> size (snd r))")
     (auto dest: childRefs_size)

declare walk.simps(2) [simp del]

definition visitChild :: "path \<Rightarrow> nref \<Rightarrow> path list" where
  "visitChild anc c = (c # anc) # walk (c # anc)"

definition traverse :: "node \<Rightarrow> path list" where
  "traverse rootNode = walk [([], rootNode)]"

text \<open>The accessors of a path that the visitors use.\<close>

fun pathNode :: "path \<Rightarrow> node option" where
  "pathNode [] = None"
| "pathNode (r # _) = Some (snd r)"

fun pathPos :: "path \<Rightarrow> pos option" where
  "pathPos [] = None"
| "pathPos (r # _) = Some (fst r)"

fun pathParent :: "path \<Rightarrow> node option" where
  "pathParent (_ # r # _) = Some (snd r)"
| "pathParent _ = None"

fun pathGrandparent :: "path \<Rightarrow> node option" where
  "pathGrandparent (_ # _ # r # _) = Some (snd r)"
| "pathGrandparent _ = None"

text \<open>The index of the node among the children of its parent.\<close>

fun childIndex :: "path \<Rightarrow> nat" where
  "childIndex [] = 0"
| "childIndex (r # _) = (if fst r = [] then 0 else last (fst r))"

text \<open>
  \<open>path.findParent\<close> walks the chain of parent paths. The chain of a traversal started
  at a root ends below the root, which has no path of its own.
\<close>

definition parentChain :: "path \<Rightarrow> nref list" where
  "parentChain p = butlast (tl p)"

definition getAncestorStack :: "path \<Rightarrow> nref list" where
  "getAncestorStack p = butlast p"

text \<open>
  Babel's \<open>isReferenced(node, parent, grandparent)\<close>, on the node kinds of the model: is
  an identifier at child index \<open>i\<close> of \<open>parent\<close> a reference to a binding, rather than
  a property name, a declared name or a label. Among the kinds kept as \<open>OtherNode\<close>
  those under which Babel never sees a reference are listed by name.
\<close>

definition NON_REFERENCING_PARENTS :: "string list" where
  "NON_REFERENCING_PARENTS =
     [''PrivateName'', ''LabeledStatement'', ''CatchClause'', ''BreakStatement'',
      ''ContinueStatement'', ''ExportNamespaceSpecifier'', ''ExportDefaultSpecifier'',
      ''ImportDefaultSpecifier'', ''ImportNamespaceSpecifier'', ''ImportSpecifier'',
      ''ImportAttribute'', ''JSXAttribute'', ''MetaProperty'']"

fun isReferenced :: "nat \<Rightarrow> node \<Rightarrow> node option \<Rightarrow> bool" where
  "isReferenced i (MemberExpression ob pr computed) g = (if i = 1 then computed else True)"
| "isReferenced i (VariableDeclarator idn init) g = (i = 1)"
| "isReferenced i (ArrowFunctionExpression ps b) g = (i = length ps)"
| "isReferenced i (ObjectMethod k ps b computed) g = (if i = 0 then computed else False)"
| "isReferenced i (ObjectProperty k v computed) g =
     (if i = 0 then computed
      else (case g of Some (ObjectPattern _) \<Rightarrow> False | _ \<Rightarrow> True))"
| "isReferenced i (AssignmentExpression op l r) g = (i = 1)"
| "isReferenced i (AssignmentPattern l r) g = (i = 1)"
| "isReferenced i (RestElement a) g = False"
| "isReferenced i (FunctionDeclaration idn ps b) g = False"
| "isReferenced i (FunctionExpression idn ps b) g = False"
| "isReferenced i (ObjectPattern ps) g = False"
| "isReferenced i (ArrayPattern es) g = False"
| "isReferenced i (OtherNode ty cs) g = (ty \<notin> set NON_REFERENCING_PARENTS)"
| "isReferenced i _ g = True"

definition isReferencedIdentifier :: "path \<Rightarrow> bool" where
  "isReferencedIdentifier p =
     (case (pathNode p, pathParent p) of
        (Some (Identifier _), Some parent) \<Rightarrow> isReferenced (childIndex p) parent (pathGrandparent p)
      | _ \<Rightarrow> False)"

section \<open>Confidence downgrading\<close>

datatype ConfidenceLevel = High | Medium | Low

text \<open>
  The \<open>context\<close> argument of \<open>_adjustConfidence\<close>: every field is optional. The chain
  depth is a count, modelled as an integer.
\<close>

record ConfidenceContext =
  usedTypeInference :: "bool option"
  crossFileChainDepth :: "int option"
  isConditional :: "bool option"
  isStrictMode :: "bool option"

text \<open>JavaScript truthiness of an optional boolean and of an optional number.\<close>

fun truthyBool :: "bool option \<Rightarrow> bool" where
  "truthyBool None = False"
| "truthyBool (Some b) = b"

fun truthyNum :: "int option \<Rightarrow> bool" where
  "truthyNum None = False"
| "truthyNum (Some n) = (n \<noteq> 0)"

definition adjustConfidence :: "ConfidenceLevel \<Rightarrow> ConfidenceContext \<Rightarrow> ConfidenceLevel" where
  "adjustConfidence baseConfidence ctx =
     (let c1 = (if truthyBool (usedTypeInference ctx) \<and> \<not> truthyBool (isStrictMode ctx)
                   \<and> baseConfidence = High
                then Medium else baseConfidence);
          c2 = (if truthyNum (crossFileChainDepth ctx)
                   \<and> (case crossFileChainDepth ctx of None \<Rightarrow> False | Some d \<Rightarrow> d > 2)
                   \<and> c1 = High
                then Medium else c1);
          c3 = (if truthyBool (isConditional ctx) \<and> c2 = High then Medium else c2)
      in c3)"

text \<open>The ordering low < medium < high, as a rank.\<close>

fun confidenceRank :: "ConfidenceLevel \<Rightarrow> nat" where
  "confidenceRank Low = 0"
| "confidenceRank Medium = 1"
| "confidenceRank High = 2"

section \<open>Stability of a call result\<close>

definition STABLE_FUNCTION_CALLS :: "string list" where
  "STABLE_FUNCTION_CALLS =
     [''require'', ''String'', ''Number'', ''Boolean'', ''parseInt'', ''parseFloat'']"

definition PRIMITIVE_RETURNING_METHODS :: "string list" where
  "PRIMITIVE_RETURNING_METHODS =
     [''join'', ''toString'', ''toLocaleString'', ''valueOf'', ''charAt'', ''charCodeAt'',
      ''codePointAt'', ''substring'', ''substr'', ''slice'', ''trim'', ''trimStart'',
      ''trimEnd'', ''toLowerCase'', ''toUpperCase'', ''toLocaleLowerCase'',
      ''toLocaleUpperCase'', ''normalize'', ''padStart'', ''padEnd'', ''repeat'', ''replace'',
      ''replaceAll'', ''toFixed'', ''toExponential'', ''toPrecision'', ''indexOf'',
      ''lastIndexOf'', ''length'', ''includes'', ''startsWith'', ''endsWith'', ''every'',
      ''some'', ''get'', ''has'']"

definition PRIMITIVE_RETURNING_STATIC_METHODS :: "(string \<times> string list) list" where
  "PRIMITIVE_RETURNING_STATIC_METHODS =
     [(''Math'', [''abs'', ''acos'', ''acosh'', ''asin'', ''asinh'', ''atan'', ''atan2'',
                  ''atanh'', ''cbrt'', ''ceil'', ''clz32'', ''cos'', ''cosh'', ''exp'', ''expm1'',
                  ''floor'', ''fround'', ''hypot'', ''imul'', ''log'', ''log10'', ''log1p'',
                  ''log2'', ''max'', ''min'', ''pow'', ''random'', ''round'', ''sign'', ''sin'',
                  ''sinh'', ''sqrt'', ''tan'', ''tanh'', ''trunc'']),
      (''Number'', [''isFinite'', ''isInteger'', ''isNaN'', ''isSafeInteger'', ''parseFloat'',
                    ''parseInt'']),
      (''String'', [''fromCharCode'', ''fromCodePoint'']),
      (''Object'', [''is'', ''hasOwn'']),
      (''Array'', [''isArray'']),
      (''Date'', [''now'', ''parse'', ''UTC'']),
      (''JSON'', [''stringify''])]"

definition STABLE_REACT_HOOKS :: "string list" where
  "STABLE_REACT_HOOKS = [''useRef'', ''useId'']"

definition STATE_HOOKS :: "string list" where
  "STATE_HOOKS = [''useState'', ''useReducer'']"

text \<open>
  The optional type checker. A query \<open>getFunctionReturnType(filePath, line, name)\<close>
  throws, returns nothing, or returns a record whose \<open>isStableReturn\<close> is the verdict.
\<close>

datatype tcAnswer = Throws | NoInfo | ReturnInfo bool

type_synonym tcQuery = "string \<times> nat \<times> string"
type_synonym TypeChecker = "string \<Rightarrow> nat \<Rightarrow> string \<Rightarrow> tcAnswer"

record StabilityCheckContext =
  filePath :: "string option"
  ctxLine :: "nat option"

text \<open>
  The configuration. A regular expression of the pattern lists is modelled by its
  \<open>test\<close> predicate on names.
\<close>

record StabilityConfig =
  stableHooks :: "string list option"
  unstableHooks :: "string list option"
  stableHookPatterns :: "(string \<Rightarrow> bool) list option"
  unstableHookPatterns :: "(string \<Rightarrow> bool) list option"

definition isConfiguredStableHook :: "string \<Rightarrow> StabilityConfig \<Rightarrow> bool" where
  "isConfiguredStableHook hookName config =
     (if (case stableHooks config of None \<Rightarrow> False | Some l \<Rightarrow> hookName \<in> set l) then True
      else if (case stableHookPatterns config of None \<Rightarrow> False
               | Some ps \<Rightarrow> list_ex (\<lambda>pattern. pattern hookName) ps) then True
      else False)"

definition isConfiguredUnstableHook :: "string \<Rightarrow> StabilityConfig \<Rightarrow> bool" where
  "isConfiguredUnstableHook hookName config =
     (if (case unstableHooks config of None \<Rightarrow> False | Some l \<Rightarrow> hookName \<in> set l) then True
      else if (case unstableHookPatterns config of None \<Rightarrow> False
               | Some ps \<Rightarrow> list_ex (\<lambda>pattern. pattern hookName) ps) then True
      else False)"

definition checkFunctionReturnStability ::
  "TypeChecker option \<Rightarrow> string \<Rightarrow> nat \<Rightarrow> string \<Rightarrow> bool option" where
  "checkFunctionReturnStability typeChecker file lineNo functionName =
     (case typeChecker of
        None \<Rightarrow> None
      | Some tc \<Rightarrow>
          (case tc file lineNo functionName of
             Throws \<Rightarrow> None
           | NoInfo \<Rightarrow> None
           | ReturnInfo b \<Rightarrow> Some b))"

text \<open>
  Steps 5 and later of \<open>isStableFunctionCall\<close>: the \<open>use\<close> prefix heuristic and the
  allowlists of methods that return primitives.
\<close>

definition stableByHeuristics :: "node \<Rightarrow> bool" where
  "stableByHeuristics callee =
     (case callee of
        Identifier nm \<Rightarrow> take 3 nm = ''use''
      | MemberExpression ob (Identifier methodName) _ \<Rightarrow>
          (if methodName \<in> set PRIMITIVE_RETURNING_METHODS then True
           else if (case ob of
                      Identifier objectName \<Rightarrow>
                        (case map_of PRIMITIVE_RETURNING_STATIC_METHODS objectName of
                           None \<Rightarrow> False
                         | Some staticMethods \<Rightarrow> methodName \<in> set staticMethods)
                    | _ \<Rightarrow> False) then True
           else if methodName = ''getState'' then True
           else False)
      | _ \<Rightarrow> False)"

text \<open>
  Step 4: the type checker is asked only when a checker, a non-empty file path and a
  non-zero line are at hand and the callee has a name. The result is the verdict, if
  any, together with the queries sent to the checker.
\<close>

definition typeCheckerStep ::
  "node \<Rightarrow> StabilityCheckContext option \<Rightarrow> TypeChecker option \<Rightarrow> bool option \<times> tcQuery list" where
  "typeCheckerStep callee context typeChecker =
     (case (typeChecker, context) of
        (Some tc, Some ctx) \<Rightarrow>
          (case (filePath ctx, ctxLine ctx) of
             (Some file, Some lineNo) \<Rightarrow>
               (if file \<noteq> [] \<and> lineNo \<noteq> 0 then
                  (let functionName =
                         (case callee of
                            Identifier nm \<Rightarrow> Some nm
                          | MemberExpression _ (Identifier nm) _ \<Rightarrow> Some nm
                          | _ \<Rightarrow> None)
                   in case functionName of
                        None \<Rightarrow> (None, [])
                      | Some nm \<Rightarrow>
                          (if nm \<noteq> [] then
                             (checkFunctionReturnStability typeChecker file lineNo nm, [(file, lineNo, nm)])
                           else (None, [])))
                else (None, []))
           | _ \<Rightarrow> (None, []))
      | _ \<Rightarrow> (None, []))"

text \<open>
  \<open>isStableFunctionCall\<close>, returning next to its verdict the list of queries it sent
  to the type checker. The argument is a call expression; on any other node (excluded
  by the parameter's type) the model answers \<open>False\<close>.
\<close>

fun isStableFunctionCallTraced ::
  "node \<Rightarrow> StabilityCheckContext option \<Rightarrow> TypeChecker option \<Rightarrow> StabilityConfig option
     \<Rightarrow> bool \<times> tcQuery list" where
  "isStableFunctionCallTraced (CallExpression callee args) context typeChecker config =
     (if (case callee of Identifier nm \<Rightarrow> nm \<in> set STABLE_REACT_HOOKS | _ \<Rightarrow> False)
        then (True, [])
      else if (case callee of Identifier nm \<Rightarrow> nm \<in> set STABLE_FUNCTION_CALLS | _ \<Rightarrow> False)
        then (True, [])
      else if (case (callee, config) of
                 (Identifier nm, Some cfg) \<Rightarrow> isConfiguredUnstableHook nm cfg
               | _ \<Rightarrow> False)
        then (False, [])
      else if (case (callee, config) of
                 (Identifier nm, Some cfg) \<Rightarrow> isConfiguredStableHook nm cfg
               | _ \<Rightarrow> False)
        then (True, [])
      else (case typeCheckerStep callee context typeChecker of
              (Some typeStability, queries) \<Rightarrow> (typeStability, queries)
            | (None, queries) \<Rightarrow> (stableByHeuristics callee, queries)))"
| "isStableFunctionCallTraced _ context typeChecker config = (False, [])"

definition isStableFunctionCall ::
  "node \<Rightarrow> StabilityCheckContext option \<Rightarrow> TypeChecker option \<Rightarrow> StabilityConfig option
     \<Rightarrow> bool" where
  "isStableFunctionCall init context typeChecker config =
     fst (isStableFunctionCallTraced init context typeChecker config)"

section \<open>Unstable variables: the final pass\<close>

datatype unstableKind = ObjectKind | ArrayKind | FunctionKind | FunctionCallKind

record UnstableVariable =
  uvName :: string
  uvType :: unstableKind
  uvLine :: nat
  isMemoized :: bool
  isModuleLevel :: bool
  componentName :: "string option"
  componentStartLine :: "nat option"
  componentEndLine :: "nat option"

text \<open>
  What the traversal of \<open>extractUnstableVariables\<close> has collected when the final pass
  starts: the map of unstable entries in insertion order, the memoized names of each
  component (\<open>__module__\<close> for the module scope), and the names proven to be state, refs
  or module-level variables.
\<close>

record stabilityFacts =
  unstableVars :: "(string \<times> UnstableVariable) list"
  memoizedVars :: "string \<Rightarrow> string set option"
  stateVars :: "string set"
  refVars :: "string set"
  moduleLevelVars :: "string set"

text \<open>
  The test the final loop applies to one entry. \<open>componentName && ...\<close> fails for an
  absent and for an empty component name.
\<close>

definition provenStable :: "stabilityFacts \<Rightarrow> UnstableVariable \<Rightarrow> bool" where
  "provenStable facts unstableVar =
     (if (case componentName unstableVar of
            None \<Rightarrow> False
          | Some c \<Rightarrow> c \<noteq> [] \<and> (case memoizedVars facts c of
                                    None \<Rightarrow> False
                                  | Some names \<Rightarrow> uvName unstableVar \<in> names)) then True
      else if uvName unstableVar \<in> stateVars facts then True
      else if uvName unstableVar \<in> refVars facts then True
      else if uvName unstableVar \<in> moduleLevelVars facts then True
      else False)"

definition keysToDelete :: "stabilityFacts \<Rightarrow> string list" where
  "keysToDelete facts =
     map fst (filter (\<lambda>(key, unstableVar). provenStable facts unstableVar) (unstableVars facts))"

definition removeStableEntries :: "stabilityFacts \<Rightarrow> (string \<times> UnstableVariable) list" where
  "removeStableEntries facts = fold AList.delete (keysToDelete facts) (unstableVars facts)"

section \<open>Guard analysis\<close>

datatype guardType =
  ToggleGuard | EqualityGuard | EarlyReturn | ObjectSpreadRisk | Unknown | DerivedState

text \<open>
  The verdict on one condition (\<open>{ type, isSafe, warning? }\<close> in the effect variant,
  \<open>RenderPhaseGuardResult\<close> in the render-phase variant), and the
  \<open>GuardedModification\<close> that extends it by the setter and its state variable.
\<close>

record guardVerdict =
  guardType :: guardType
  isSafe :: bool
  warning :: "string option"

record GuardedModification = guardVerdict +
  setter :: string
  stateVariable :: string

definition verdict :: "guardType \<Rightarrow> bool \<Rightarrow> guardVerdict" where
  "verdict ty safe = \<lparr>guardType = ty, isSafe = safe, warning = None\<rparr>"

fun callArguments :: "node \<Rightarrow> node list" where
  "callArguments (CallExpression c as) = as"
| "callArguments _ = []"

fun callCallee :: "node \<Rightarrow> node option" where
  "callCallee (CallExpression c as) = Some c"
| "callCallee _ = None"

text \<open>\<open>setterCall.arguments?.[0]\<close>\<close>

definition firstArgument :: "node \<Rightarrow> node option" where
  "firstArgument setterCall = (case callArguments setterCall of [] \<Rightarrow> None | a # _ \<Rightarrow> Some a)"

definition usesObjectSpread :: "node option \<Rightarrow> string \<Rightarrow> bool" where
  "usesObjectSpread setterArg stateVar =
     (case setterArg of
        None \<Rightarrow> False
      | Some (ObjectExpression properties) \<Rightarrow>
          list_ex (\<lambda>prop. prop = SpreadElement (Identifier stateVar)) properties
      | Some (CallExpression (MemberExpression (Identifier ob) (Identifier pr) _) args) \<Rightarrow>
          ob = ''Object'' \<and> pr = ''assign'' \<and> list_ex (\<lambda>arg. arg = Identifier stateVar) args
      | Some (ArrayExpression elements) \<Rightarrow>
          list_ex (\<lambda>element. element = SpreadElement (Identifier stateVar)) elements
      | _ \<Rightarrow> False)"

fun isMemberOf :: "string \<Rightarrow> node \<Rightarrow> bool" where
  "isMemberOf stateVar (MemberExpression (Identifier ob) _ _) = (ob = stateVar)"
| "isMemberOf stateVar _ = False"

definition spreadWarning :: "string \<Rightarrow> string" where
  "spreadWarning stateVar =
     ''Guard checks property of '' @ [CHR 0x27] @ stateVar @ [CHR 0x27]
     @ '' but setter creates new object reference. ''
     @ ''Even after the property matches, the object reference changes each render, ''
     @ ''which may cause issues if other effects or memoized values depend on object identity.''"

text \<open>
  \<open>analyzeCondition\<close> of the effect variant. Each pattern of the source tests the type of
  the condition first, so the model dispatches on the constructor; a condition that no
  pattern accepts yields \<open>None\<close> (the source's \<open>null\<close>).
\<close>

fun analyzeCondition :: "node \<Rightarrow> string \<Rightarrow> node \<Rightarrow> string option \<Rightarrow> guardVerdict option" where
  "analyzeCondition (UnaryExpression operator argument) stateVar setterCall setterName =
     (if operator = ''!'' \<and> argument = Identifier stateVar then
        (case firstArgument setterCall of
           Some setterArg \<Rightarrow>
             (if setterArg = BooleanLiteral True then Some (verdict ToggleGuard True)
              else if setterArg \<noteq> Identifier stateVar then Some (verdict ToggleGuard True)
              else None)
         | None \<Rightarrow>
             (case callCallee setterCall of
                Some (Identifier calleeName) \<Rightarrow>
                  (if Some calleeName \<noteq> setterName then Some (verdict ToggleGuard True)
                   else None)
              | _ \<Rightarrow> None))
      else None)"
| "analyzeCondition (Identifier nm) stateVar setterCall setterName =
     (if nm = stateVar then
        (case firstArgument setterCall of
           Some (BooleanLiteral b) \<Rightarrow> (if b = False then Some (verdict ToggleGuard True) else None)
         | Some NullLiteral \<Rightarrow> Some (verdict ToggleGuard True)
         | Some (Identifier a) \<Rightarrow>
             (if a = ''undefined'' then Some (verdict ToggleGuard True) else None)
         | _ \<Rightarrow> None)
      else None)"
| "analyzeCondition (BinaryExpression operator left right) stateVar setterCall setterName =
     (if operator = ''!=='' \<or> operator = ''!='' then
        (if left = Identifier stateVar \<or> right = Identifier stateVar
           then Some (verdict EqualityGuard True)
         else if isMemberOf stateVar left \<or> isMemberOf stateVar right then
           (if usesObjectSpread (firstArgument setterCall) stateVar
              then Some \<lparr>guardType = ObjectSpreadRisk, isSafe = False,
                         warning = Some (spreadWarning stateVar)\<rparr>
            else Some (verdict EqualityGuard True))
         else None)
      else None)"
| "analyzeCondition (LogicalExpression operator left right) stateVar setterCall setterName =
     (if operator = ''&&'' then
        (let leftResult = analyzeCondition left stateVar setterCall setterName;
             rightResult = analyzeCondition right stateVar setterCall setterName
         in if (case leftResult of Some r \<Rightarrow> isSafe r | None \<Rightarrow> False) then leftResult
            else if (case rightResult of Some r \<Rightarrow> isSafe r | None \<Rightarrow> False) then rightResult
            else None)
      else None)"
| "analyzeCondition _ stateVar setterCall setterName = None"

text \<open>
  \<open>conditionInvolvesState\<close> traverses the condition: an identifier below the condition
  that is named as the state variable and is a reference. The condition node itself is
  the root of the traversal and is not visited.
\<close>

definition conditionInvolvesState :: "node \<Rightarrow> string \<Rightarrow> bool" where
  "conditionInvolvesState condition stateVar =
     list_ex (\<lambda>p. pathNode p = Some (Identifier stateVar) \<and> isReferencedIdentifier p)
       (traverse condition)"

text \<open>
  \<open>containsNode(tree, target)\<close> searches \<open>tree\<close> for the very node \<open>target\<close>: the tree
  itself or a node below it, compared by identity.
\<close>

definition containsNode :: "nref \<Rightarrow> nref \<Rightarrow> bool" where
  "containsNode tree target =
     (fst tree = fst target \<or> list_ex (\<lambda>p. pathPos p = Some (fst target)) (walk [tree]))"

text \<open>
  \<open>checkEarlyReturnPattern\<close>: the statement of the block that contains the setter call
  is preceded, in the block, by an \<open>if\<close> whose consequent is a \<open>return\<close> (alone, or as the
  only statement of a block) and whose test involves the state variable.
\<close>

fun findIndexFrom :: "('a \<Rightarrow> bool) \<Rightarrow> int \<Rightarrow> 'a list \<Rightarrow> int" where
  "findIndexFrom P i [] = - 1"
| "findIndexFrom P i (x # xs) = (if P x then i else findIndexFrom P (i + 1) xs)"

fun hasReturn :: "node \<Rightarrow> bool" where
  "hasReturn (ReturnStatement _) = True"
| "hasReturn (BlockStatement [ReturnStatement _]) = True"
| "hasReturn _ = False"

fun earlyReturnGuard :: "string \<Rightarrow> node \<Rightarrow> bool" where
  "earlyReturnGuard stateVar (IfStatement test consequent alternate) =
     (hasReturn consequent \<and> conditionInvolvesState test stateVar)"
| "earlyReturnGuard stateVar _ = False"

definition checkEarlyReturnPattern :: "nref \<Rightarrow> nref \<Rightarrow> string \<Rightarrow> bool" where
  "checkEarlyReturnPattern blockStatement setterCall stateVar =
     (case snd blockStatement of
        BlockStatement body \<Rightarrow>
          (let setterIndex =
                 findIndexFrom (\<lambda>stmt. containsNode stmt setterCall) 0 (childRefs blockStatement)
           in if setterIndex \<le> 0 then False
              else list_ex (earlyReturnGuard stateVar) (take (nat setterIndex) body))
      | _ \<Rightarrow> False)"

text \<open>
  \<open>analyzeConditionalGuard\<close>. The source's loop runs over the ancestor stack from its last
  entry to its first, that is from the outermost ancestor inwards, and returns at the
  first \<open>if\<close> that \<open>analyzeCondition\<close> classifies or the first block with an early return.
  An absent or empty state variable gives \<open>None\<close> at once. (The parameter
  \<open>_allStateVars\<close> is unused in the source and left out.)
\<close>

fun guardLoop :: "nref \<Rightarrow> nref list \<Rightarrow> string \<Rightarrow> string \<Rightarrow> GuardedModification option" where
  "guardLoop setterCall [] setterName stateVar = None"
| "guardLoop setterCall (ancestor # rest) setterName stateVar =
     (case (case snd ancestor of
              IfStatement test consequent alternate \<Rightarrow>
                analyzeCondition test stateVar (snd setterCall) (Some setterName)
            | _ \<Rightarrow> None) of
        Some g \<Rightarrow>
          Some \<lparr>guardType = guardType g, isSafe = isSafe g, warning = warning g,
                setter = setterName, stateVariable = stateVar\<rparr>
      | None \<Rightarrow>
          (if (case snd ancestor of
                 BlockStatement body \<Rightarrow> checkEarlyReturnPattern ancestor setterCall stateVar
               | _ \<Rightarrow> False)
           then Some \<lparr>guardType = EarlyReturn, isSafe = True, warning = None,
                      setter = setterName, stateVariable = stateVar\<rparr>
           else guardLoop setterCall rest setterName stateVar))"

definition analyzeConditionalGuard ::
  "nref \<Rightarrow> nref list \<Rightarrow> string \<Rightarrow> string option \<Rightarrow> GuardedModification option" where
  "analyzeConditionalGuard setterCall ancestorStack setterName stateVar =
     (case stateVar of
        None \<Rightarrow> None
      | Some sv \<Rightarrow>
          (if sv = [] then None else guardLoop setterCall (rev ancestorStack) setterName sv))"

subsection \<open>The render-phase variant\<close>

fun isFalsyLiteralNode :: "node option \<Rightarrow> bool" where
  "isFalsyLiteralNode (Some (BooleanLiteral b)) = (b = False)"
| "isFalsyLiteralNode (Some (NumericLiteral v)) = (v = 0)"
| "isFalsyLiteralNode (Some (StringLiteral s)) = (s = [])"
| "isFalsyLiteralNode (Some NullLiteral) = True"
| "isFalsyLiteralNode (Some (Identifier nm)) = (nm = ''undefined'')"
| "isFalsyLiteralNode _ = False"

fun isIdentifier :: "node \<Rightarrow> bool" where
  "isIdentifier (Identifier _) = True"
| "isIdentifier _ = False"

fun isStringLiteral :: "node \<Rightarrow> bool" where
  "isStringLiteral (StringLiteral _) = True"
| "isStringLiteral _ = False"

text \<open>The \<open>name\<close> of an identifier and the \<open>value\<close> of a string literal.\<close>

fun nameOrValue :: "node \<Rightarrow> string" where
  "nameOrValue (Identifier nm) = nm"
| "nameOrValue (StringLiteral s) = s"
| "nameOrValue _ = []"

text \<open>
  \<open>nodesAreEquivalent\<close>: the recursive comparison of two expressions. Member expressions
  compare their objects and then their properties, where \<open>a.prop\<close> and \<open>a['prop']\<close> are
  the same property; any other pair of properties is compared as nodes.
\<close>

fun nodesAreEquivalent :: "node \<Rightarrow> node \<Rightarrow> bool" where
  "nodesAreEquivalent (Identifier a) nb = (case nb of Identifier b \<Rightarrow> a = b | _ \<Rightarrow> False)"
| "nodesAreEquivalent (MemberExpression objA propA computedA) nb =
     (case nb of
        MemberExpression objB propB computedB \<Rightarrow>
          (if \<not> nodesAreEquivalent objA objB then False
           else if isIdentifier propA \<and> \<not> computedA \<and> isIdentifier propB \<and> \<not> computedB
             then nameOrValue propA = nameOrValue propB
           else if isStringLiteral propA \<and> computedA \<and> isStringLiteral propB \<and> computedB
             then nameOrValue propA = nameOrValue propB
           else if isIdentifier propA \<and> \<not> computedA \<and> isStringLiteral propB \<and> computedB
             then nameOrValue propA = nameOrValue propB
           else if isStringLiteral propA \<and> computedA \<and> isIdentifier propB \<and> \<not> computedB
             then nameOrValue propA = nameOrValue propB
           else nodesAreEquivalent propA propB)
      | _ \<Rightarrow> False)"
| "nodesAreEquivalent (NumericLiteral a) nb = (case nb of NumericLiteral b \<Rightarrow> a = b | _ \<Rightarrow> False)"
| "nodesAreEquivalent (StringLiteral a) nb = (case nb of StringLiteral b \<Rightarrow> a = b | _ \<Rightarrow> False)"
| "nodesAreEquivalent (BooleanLiteral a) nb = (case nb of BooleanLiteral b \<Rightarrow> a = b | _ \<Rightarrow> False)"
| "nodesAreEquivalent NullLiteral nb = (case nb of NullLiteral \<Rightarrow> True | _ \<Rightarrow> False)"
| "nodesAreEquivalent _ nb = False"

fun isIdentifierOrMember :: "node \<Rightarrow> bool" where
  "isIdentifierOrMember (Identifier _) = True"
| "isIdentifierOrMember (MemberExpression _ _ _) = True"
| "isIdentifierOrMember _ = False"

fun isStrictResetValue :: "node option \<Rightarrow> bool" where
  "isStrictResetValue (Some NullLiteral) = True"
| "isStrictResetValue (Some (Identifier nm)) = (nm = ''undefined'')"
| "isStrictResetValue (Some (BooleanLiteral b)) = (b = False)"
| "isStrictResetValue (Some (ArrayExpression elements)) = (elements = [])"
| "isStrictResetValue (Some (ObjectExpression properties)) = (properties = [])"
| "isStrictResetValue _ = False"

fun isFalsyResetValue :: "node option \<Rightarrow> bool" where
  "isFalsyResetValue (Some (NumericLiteral v)) = (v = 0)"
| "isFalsyResetValue (Some (StringLiteral s)) = (s = [])"
| "isFalsyResetValue _ = False"

fun analyzeRenderGuardCondition :: "node \<Rightarrow> string \<Rightarrow> node \<Rightarrow> guardVerdict option" where
  "analyzeRenderGuardCondition (BinaryExpression operator left right) stateVar setterCall =
     (if operator = ''!=='' \<or> operator = ''!='' then
        (let hasStateOnLeft = (left = Identifier stateVar);
             hasStateOnRight = (right = Identifier stateVar);
             otherSide = (if hasStateOnLeft then right else left)
         in if (hasStateOnLeft \<or> hasStateOnRight)
               \<and> (case firstArgument setterCall of
                     Some setterArg \<Rightarrow> nodesAreEquivalent setterArg otherSide
                   | None \<Rightarrow> False)
              then Some (verdict DerivedState True)
            else if isIdentifierOrMember left \<and> isIdentifierOrMember right
                    \<and> (isStrictResetValue (firstArgument setterCall)
                       \<or> isFalsyResetValue (firstArgument setterCall))
              then Some (verdict DerivedState True)
            else None)
      else None)"
| "analyzeRenderGuardCondition (UnaryExpression operator argument) stateVar setterCall =
     (if operator = ''!'' \<and> argument = Identifier stateVar
         \<and> firstArgument setterCall \<noteq> None
         \<and> \<not> isFalsyLiteralNode (firstArgument setterCall)
        then Some (verdict ToggleGuard True)
      else None)"
| "analyzeRenderGuardCondition (Identifier nm) stateVar setterCall =
     (if nm = stateVar \<and> isFalsyLiteralNode (firstArgument setterCall)
        then Some (verdict ToggleGuard True)
      else None)"
| "analyzeRenderGuardCondition (LogicalExpression operator left right) stateVar setterCall =
     (if operator = ''&&'' then
        (let leftResult = analyzeRenderGuardCondition left stateVar setterCall;
             rightResult = analyzeRenderGuardCondition right stateVar setterCall
         in if (case leftResult of Some r \<Rightarrow> isSafe r | None \<Rightarrow> False) then leftResult
            else if (case rightResult of Some r \<Rightarrow> isSafe r | None \<Rightarrow> False) then rightResult
            else None)
      else None)"
| "analyzeRenderGuardCondition _ stateVar setterCall = None"

text \<open>
  \<open>analyzeRenderPhaseGuard\<close>. The loop starts at index 1 of the ancestor stack (index 0 is
  the setter call) and runs outwards; \<open>isGuarded\<close> records that an \<open>if\<close> was met. The
  ancestors are used by their content only. (The parameter \<open>_setterName\<close> is unused in
  the source and kept for the signature.)
\<close>

fun renderGuardLoop :: "node \<Rightarrow> node list \<Rightarrow> string \<Rightarrow> bool \<Rightarrow> guardVerdict option" where
  "renderGuardLoop setterCall [] stateVar isGuarded =
     (if isGuarded then Some (verdict Unknown False) else None)"
| "renderGuardLoop setterCall (ancestor # rest) stateVar isGuarded =
     (case ancestor of
        IfStatement test consequent alternate \<Rightarrow>
          (case analyzeRenderGuardCondition test stateVar setterCall of
             Some result \<Rightarrow> Some result
           | None \<Rightarrow> renderGuardLoop setterCall rest stateVar True)
      | _ \<Rightarrow> renderGuardLoop setterCall rest stateVar isGuarded)"

definition analyzeRenderPhaseGuard ::
  "node \<Rightarrow> node list \<Rightarrow> string \<Rightarrow> string \<Rightarrow> guardVerdict option" where
  "analyzeRenderPhaseGuard setterCall ancestorStack setterName stateVar =
     renderGuardLoop setterCall (drop 1 ancestorStack) stateVar False"

subsection \<open>The condition shapes the specification lists\<close>

text \<open>
  The shapes of an \<open>if\<close>-condition that the specification lists as recognized, for a
  given state variable: the negated state identifier, the bare state identifier, a
  \<open>!==\<close> or \<open>!=\<close> comparison one operand of which is the state identifier or a property
  of it, and a conjunction one side of which is of a listed shape.
\<close>

fun listedGuardShape :: "string \<Rightarrow> node \<Rightarrow> bool" where
  "listedGuardShape stateVar (UnaryExpression operator argument) =
     (operator = ''!'' \<and> argument = Identifier stateVar)"
| "listedGuardShape stateVar (Identifier nm) = (nm = stateVar)"
| "listedGuardShape stateVar (BinaryExpression operator left right) =
     ((operator = ''!=='' \<or> operator = ''!='')
      \<and> (left = Identifier stateVar \<or> right = Identifier stateVar
         \<or> isMemberOf stateVar left \<or> isMemberOf stateVar right))"
| "listedGuardShape stateVar (LogicalExpression operator left right) =
     (operator = ''&&'' \<and> (listedGuardShape stateVar left \<or> listedGuardShape stateVar right))"
| "listedGuardShape stateVar _ = False"

text \<open>
  The shape the render-phase variant accepts beyond the list: a \<open>!==\<close> or \<open>!=\<close>
  comparison of two operands that are identifiers or member expressions, whatever they
  name (the reset of related state), alone or as one side of a conjunction.
\<close>

fun resetComparisonShape :: "node \<Rightarrow> bool" where
  "resetComparisonShape (BinaryExpression operator left right) =
     ((operator = ''!=='' \<or> operator = ''!='')
      \<and> isIdentifierOrMember left \<and> isIdentifierOrMember right)"
| "resetComparisonShape (LogicalExpression operator left right) =
     (operator = ''&&'' \<and> (resetComparisonShape left \<or> resetComparisonShape right))"
| "resetComparisonShape _ = False"

text \<open>
  The derived-state patterns as the render-phase variant has them: a \<open>!==\<close> or \<open>!=\<close>
  comparison in which either one operand is the state identifier and the setter's first
  argument is equivalent to the other operand, or both operands are identifiers or member
  expressions and the setter's first argument is a reset value; alone or as one side of
  a conjunction.
\<close>

fun derivedStateShape :: "string \<Rightarrow> node \<Rightarrow> node \<Rightarrow> bool" where
  "derivedStateShape stateVar setterCall (BinaryExpression operator left right) =
     ((operator = ''!=='' \<or> operator = ''!='')
      \<and> ((case firstArgument setterCall of
             None \<Rightarrow> False
           | Some setterArg \<Rightarrow>
               (left = Identifier stateVar \<and> nodesAreEquivalent setterArg right)
               \<or> (right = Identifier stateVar \<and> nodesAreEquivalent setterArg left))
          \<or> (isIdentifierOrMember left \<and> isIdentifierOrMember right
              \<and> (isStrictResetValue (firstArgument setterCall)
                 \<or> isFalsyResetValue (firstArgument setterCall)))))"
| "derivedStateShape stateVar setterCall (LogicalExpression operator left right) =
     (operator = ''&&''
      \<and> (derivedStateShape stateVar setterCall left \<or> derivedStateShape stateVar setterCall right))"
| "derivedStateShape stateVar setterCall _ = False"

text \<open>The \<open>if\<close> statements of an ancestor stack that enclose the call (entry 0 is the call).\<close>

definition enclosingTests :: "node list \<Rightarrow> node list" where
  "enclosingTests ancestorStack =
     List.map_filter (\<lambda>a. case a of IfStatement test consequent alternate \<Rightarrow> Some test | _ \<Rightarrow> None)
       (drop 1 ancestorStack)"

section \<open>State interactions of a hook body\<close>

datatype referenceContext = EventListener | CallbackArg | UnknownContext

record FunctionReference =
  functionName :: string
  refContext :: referenceContext
  receivingFunction :: string

record RefMutation =
  refName :: string
  assignedValue :: "string option"
  usesStateValue :: bool
  mutationLine :: nat

record StateInteraction =
  reads :: "string list"
  modifications :: "string list"
  conditionalModifications :: "string list"
  functionalUpdates :: "string list"
  deferredModifications :: "string list"
  guardedModifications :: "GuardedModification list"
  functionReferences :: "FunctionReference list"
  refMutations :: "RefMutation list"
  cleanupModifications :: "string list"

definition EVENT_LISTENER_METHODS :: "string list" where
  "EVENT_LISTENER_METHODS =
     [''addEventListener'', ''removeEventListener'', ''on'', ''off'', ''once'', ''addListener'',
      ''removeListener'', ''subscribe'', ''unsubscribe'', ''setTimeout'', ''setInterval'',
      ''requestAnimationFrame'', ''then'', ''catch'', ''finally'', ''map'', ''filter'',
      ''forEach'', ''reduce'', ''find'', ''some'', ''every'']"

definition ASYNC_CALLBACK_FUNCTIONS :: "string list" where
  "ASYNC_CALLBACK_FUNCTIONS =
     [''setTimeout'', ''setInterval'', ''requestAnimationFrame'', ''requestIdleCallback'',
      ''then'', ''catch'', ''finally'', ''onSnapshot'', ''onAuthStateChanged'', ''onValue'',
      ''onChildAdded'', ''onChildChanged'', ''onChildRemoved'', ''subscribe'', ''observe'',
      ''addEventListener'']"

definition LISTENER_CONTEXT_METHODS :: "string list" where
  "LISTENER_CONTEXT_METHODS =
     [''addEventListener'', ''removeEventListener'', ''on'', ''off'', ''addListener'',
      ''removeListener'']"

fun isFunctionExpression :: "node \<Rightarrow> bool" where
  "isFunctionExpression (ArrowFunctionExpression _ _) = True"
| "isFunctionExpression (FunctionExpression _ _ _) = True"
| "isFunctionExpression _ = False"

text \<open>
  The state variables and their setters: the entries of the map \<open>stateInfo\<close> in
  insertion order. \<open>setterToState\<close> is filled entry by entry, a later entry replacing an
  earlier one with the same setter.
\<close>

type_synonym stateInfo = "(string \<times> string) list"

definition setterNamesOf :: "stateInfo \<Rightarrow> string list" where
  "setterNamesOf stateInfo = map snd stateInfo"

definition stateNamesOf :: "stateInfo \<Rightarrow> string list" where
  "stateNamesOf stateInfo = map fst stateInfo"

definition setterToStateOf :: "stateInfo \<Rightarrow> string \<Rightarrow> string option" where
  "setterToStateOf stateInfo =
     fold (\<lambda>(state, setr) m. m(setr \<mapsto> state)) stateInfo Map.empty"

subsection \<open>First pass\<close>

text \<open>
  What the first traversal of the hook body collects: the functions returned by a
  \<open>return\<close> statement (cleanup functions), the local function definitions by name, the
  identifiers passed to listener registrars, the function expressions passed to a
  deferred receiver, and the names passed to one. Sets of nodes are sets of positions.
\<close>

record firstPass =
  cleanupFunctionNodes :: "pos set"
  localFunctions :: "string \<Rightarrow> pos option"
  functionsPassedAsArgs :: "string set"
  asyncCallbackNodes :: "pos set"
  namedAsyncCallbackRefs :: "string set"
  collectedReferences :: "FunctionReference list"

definition emptyFirstPass :: firstPass where
  "emptyFirstPass =
     \<lparr>cleanupFunctionNodes = {}, localFunctions = Map.empty, functionsPassedAsArgs = {},
      asyncCallbackNodes = {}, namedAsyncCallbackRefs = {}, collectedReferences = []\<rparr>"

text \<open>The name of the function a call hands its arguments to: \<open>f(...)\<close> or \<open>x.f(...)\<close>.\<close>

fun receivingFuncName :: "node \<Rightarrow> string option" where
  "receivingFuncName (Identifier nm) = Some nm"
| "receivingFuncName (MemberExpression ob (Identifier nm) computed) = Some nm"
| "receivingFuncName _ = None"

definition noteReference :: "string \<Rightarrow> node \<Rightarrow> firstPass \<Rightarrow> firstPass" where
  "noteReference receiver arg fp =
     (case arg of
        Identifier a \<Rightarrow>
          fp\<lparr>functionsPassedAsArgs := insert a (functionsPassedAsArgs fp),
              collectedReferences := collectedReferences fp @
                [\<lparr>functionName = a,
                  refContext = (if receiver \<in> set LISTENER_CONTEXT_METHODS
                                then EventListener else CallbackArg),
                  receivingFunction = receiver\<rparr>]\<rparr>
      | _ \<Rightarrow> fp)"

definition noteAsyncArgument :: "nref \<Rightarrow> firstPass \<Rightarrow> firstPass" where
  "noteAsyncArgument arg fp =
     (if isFunctionExpression (snd arg)
        then fp\<lparr>asyncCallbackNodes := insert (fst arg) (asyncCallbackNodes fp)\<rparr>
      else (case snd arg of
              Identifier a \<Rightarrow> fp\<lparr>namedAsyncCallbackRefs := insert a (namedAsyncCallbackRefs fp)\<rparr>
            | _ \<Rightarrow> fp))"

text \<open>The references to the arguments of a call: the callee is child 0.\<close>

definition argumentRefs :: "nref \<Rightarrow> nref list" where
  "argumentRefs call = tl (childRefs call)"

definition firstPassCall :: "nref \<Rightarrow> firstPass \<Rightarrow> firstPass" where
  "firstPassCall call fp =
     (case callCallee (snd call) of
        None \<Rightarrow> fp
      | Some callee \<Rightarrow>
          (case receivingFuncName callee of
             None \<Rightarrow> fp
           | Some receiver \<Rightarrow>
               (let fp1 = (if receiver \<noteq> [] \<and> receiver \<in> set EVENT_LISTENER_METHODS
                           then fold (noteReference receiver) (callArguments (snd call)) fp
                           else fp)
                in if receiver \<noteq> [] \<and> receiver \<in> set ASYNC_CALLBACK_FUNCTIONS
                   then fold noteAsyncArgument (argumentRefs call) fp1
                   else fp1)))"

definition firstPassVisit :: "path \<Rightarrow> firstPass \<Rightarrow> firstPass" where
  "firstPassVisit p fp =
     (case p of
        [] \<Rightarrow> fp
      | r # _ \<Rightarrow>
          (case snd r of
             ReturnStatement (Some returnArg) \<Rightarrow>
               (if isFunctionExpression returnArg
                  then fp\<lparr>cleanupFunctionNodes := insert (fst r @ [0]) (cleanupFunctionNodes fp)\<rparr>
                else fp)
           | VariableDeclarator (Identifier nm) (Some init) \<Rightarrow>
               (if isFunctionExpression init
                  then fp\<lparr>localFunctions := (localFunctions fp)(nm \<mapsto> fst r @ [1])\<rparr>
                else fp)
           | FunctionDeclaration (Some (Identifier nm)) params body \<Rightarrow>
               fp\<lparr>localFunctions := (localFunctions fp)(nm \<mapsto> fst r)\<rparr>
           | CallExpression callee args \<Rightarrow> firstPassCall r fp
           | _ \<Rightarrow> fp))"

text \<open>
  After the pass, each name passed to a deferred receiver is looked up among the local
  functions, and the function found is a deferred callback as well.
\<close>

definition resolveNamedCallbacks :: "firstPass \<Rightarrow> pos set" where
  "resolveNamedCallbacks fp =
     asyncCallbackNodes fp \<union> Option.these (localFunctions fp ` namedAsyncCallbackRefs fp)"

definition isInsideAsyncCallback :: "pos set \<Rightarrow> path \<Rightarrow> bool" where
  "isInsideAsyncCallback asyncNodes p = (\<exists>a \<in> set (parentChain p). fst a \<in> asyncNodes)"

definition isInsideCleanupFunction :: "pos set \<Rightarrow> path \<Rightarrow> bool" where
  "isInsideCleanupFunction cleanupNodes p = (\<exists>a \<in> set (parentChain p). fst a \<in> cleanupNodes)"

subsection \<open>Main pass\<close>

text \<open>
  The values fixed before the main traversal starts: names, maps and the node sets of the
  first pass. \<open>lineOf\<close> gives the start line of the node at a position (0 when the parser
  recorded none).
\<close>

record analysisEnv =
  envSetterNames :: "string list"
  envStateNames :: "string list"
  envSetterToState :: "string \<Rightarrow> string option"
  envRefVars :: "string set"
  envLocalFunctionSetters :: "string \<Rightarrow> string list option"
  envAsyncNodes :: "pos set"
  envCleanupNodes :: "pos set"
  envLineOf :: "pos \<Rightarrow> nat"

definition emptyInteraction :: StateInteraction where
  "emptyInteraction =
     \<lparr>reads = [], modifications = [], conditionalModifications = [], functionalUpdates = [],
      deferredModifications = [], guardedModifications = [], functionReferences = [],
      refMutations = [], cleanupModifications = []\<rparr>"

text \<open>
  One modification that is neither deferred nor in a cleanup function: the guard analysis
  decides between a guarded record (and a conditional modification when the guard is not
  safe) and a plain modification.
\<close>

definition recordGuarded :: "analysisEnv \<Rightarrow> path \<Rightarrow> string \<Rightarrow> StateInteraction \<Rightarrow> StateInteraction" where
  "recordGuarded env p setr s =
     (case p of
        [] \<Rightarrow> s
      | call # _ \<Rightarrow>
          (case analyzeConditionalGuard call (getAncestorStack p) setr (envSetterToState env setr) of
             Some guardAnalysis \<Rightarrow>
               (let s1 = s\<lparr>guardedModifications := guardedModifications s @ [guardAnalysis]\<rparr>
                in if \<not> isSafe guardAnalysis
                   then s1\<lparr>conditionalModifications := conditionalModifications s1 @ [setr]\<rparr>
                   else s1)
           | None \<Rightarrow> s\<lparr>modifications := modifications s @ [setr]\<rparr>))"

definition recordModification :: "analysisEnv \<Rightarrow> path \<Rightarrow> string \<Rightarrow> StateInteraction \<Rightarrow> StateInteraction" where
  "recordModification env p setr s =
     (if isInsideAsyncCallback (envAsyncNodes env) p
        then s\<lparr>deferredModifications := deferredModifications s @ [setr]\<rparr>
      else if isInsideCleanupFunction (envCleanupNodes env) p
        then s\<lparr>cleanupModifications := cleanupModifications s @ [setr]\<rparr>
      else recordGuarded env p setr s)"

definition visitCallExpression :: "analysisEnv \<Rightarrow> path \<Rightarrow> StateInteraction \<Rightarrow> StateInteraction" where
  "visitCallExpression env p s =
     (case pathNode p of
        Some (CallExpression (Identifier calleeName) args) \<Rightarrow>
          (if calleeName \<in> set (envSetterNames env) then
             (let s1 = recordModification env p calleeName s
              in if (case args of [] \<Rightarrow> False | a # _ \<Rightarrow> isFunctionExpression a)
                 then s1\<lparr>functionalUpdates := functionalUpdates s1 @ [calleeName]\<rparr>
                 else s1)
           else
             (case envLocalFunctionSetters env calleeName of
                None \<Rightarrow> s
              | Some transitiveSetters \<Rightarrow> fold (recordModification env p) transitiveSetters s))
      | _ \<Rightarrow> s)"

text \<open>\<open>nodeReferencesState\<close>: some identifier below the node refers to a state variable.\<close>

definition nodeReferencesState :: "string list \<Rightarrow> node \<Rightarrow> bool" where
  "nodeReferencesState stateNames n =
     list_ex (\<lambda>p. (case pathNode p of
                     Some (Identifier nm) \<Rightarrow> nm \<in> set stateNames \<and> isReferencedIdentifier p
                   | _ \<Rightarrow> False))
       (traverse n)"

definition visitAssignment :: "analysisEnv \<Rightarrow> path \<Rightarrow> StateInteraction \<Rightarrow> StateInteraction" where
  "visitAssignment env p s =
     (case (pathPos p, pathNode p) of
        (Some q, Some (AssignmentExpression operator (MemberExpression (Identifier ob) (Identifier pr) computed) rightSide)) \<Rightarrow>
          (if pr = ''current'' \<and> ob \<in> envRefVars env then
             s\<lparr>refMutations := refMutations s @
                 [\<lparr>refName = ob,
                   assignedValue = (case rightSide of Identifier v \<Rightarrow> Some v | _ \<Rightarrow> None),
                   usesStateValue =
                     (case rightSide of
                        Identifier v \<Rightarrow> v \<in> set (envStateNames env)
                      | _ \<Rightarrow> nodeReferencesState (envStateNames env) rightSide),
                   mutationLine = envLineOf env q\<rparr>]\<rparr>
           else s)
      | _ \<Rightarrow> s)"

definition visitMember :: "analysisEnv \<Rightarrow> path \<Rightarrow> StateInteraction \<Rightarrow> StateInteraction" where
  "visitMember env p s =
     (case pathNode p of
        Some (MemberExpression (Identifier ob) pr computed) \<Rightarrow>
          (if ob \<in> set (envStateNames env) then s\<lparr>reads := reads s @ [ob]\<rparr> else s)
      | _ \<Rightarrow> s)"

text \<open>
  An identifier is a read when it names a state variable, is a reference, and is not the
  left side of an assignment.
\<close>

definition visitIdentifier :: "analysisEnv \<Rightarrow> path \<Rightarrow> StateInteraction \<Rightarrow> StateInteraction" where
  "visitIdentifier env p s =
     (case pathNode p of
        Some (Identifier nm) \<Rightarrow>
          (if nm \<notin> set (envStateNames env) then s
           else if \<not> isReferencedIdentifier p then s
           else if (case pathParent p of
                      Some (AssignmentExpression operator l r) \<Rightarrow> childIndex p = 0
                    | _ \<Rightarrow> False) then s
           else s\<lparr>reads := reads s @ [nm]\<rparr>)
      | _ \<Rightarrow> s)"

definition mainVisit :: "analysisEnv \<Rightarrow> path \<Rightarrow> StateInteraction \<Rightarrow> StateInteraction" where
  "mainVisit env p s =
     (case pathNode p of
        Some (CallExpression callee args) \<Rightarrow> visitCallExpression env p s
      | Some (MemberExpression ob pr computed) \<Rightarrow> visitMember env p s
      | Some (Identifier nm) \<Rightarrow> visitIdentifier env p s
      | Some (AssignmentExpression operator l r) \<Rightarrow> visitAssignment env p s
      | _ \<Rightarrow> s)"

text \<open>\<open>[...new Set(xs)]\<close>: the first occurrence of every element, in order.\<close>

definition uniq :: "'a list \<Rightarrow> 'a list" where
  "uniq xs = rev (remdups (rev xs))"

definition removeDuplicates :: "StateInteraction \<Rightarrow> StateInteraction" where
  "removeDuplicates s =
     s\<lparr>reads := uniq (reads s),
       modifications := uniq (modifications s),
       conditionalModifications := uniq (conditionalModifications s),
       functionalUpdates := uniq (functionalUpdates s),
       deferredModifications := uniq (deferredModifications s)\<rparr>"

definition firstPassOf :: "node \<Rightarrow> firstPass" where
  "firstPassOf hookBody = fold firstPassVisit (traverse hookBody) emptyFirstPass"

definition analysisEnvOf ::
  "node \<Rightarrow> stateInfo \<Rightarrow> string set \<Rightarrow> (string \<Rightarrow> string list option) \<Rightarrow> (pos \<Rightarrow> nat) \<Rightarrow> analysisEnv" where
  "analysisEnvOf hookBody stateInfo refVariables localFunctionSetters lineOf =
     \<lparr>envSetterNames = setterNamesOf stateInfo,
      envStateNames = stateNamesOf stateInfo,
      envSetterToState = setterToStateOf stateInfo,
      envRefVars = refVariables,
      envLocalFunctionSetters = localFunctionSetters,
      envAsyncNodes = resolveNamedCallbacks (firstPassOf hookBody),
      envCleanupNodes = cleanupFunctionNodes (firstPassOf hookBody),
      envLineOf = lineOf\<rparr>"

definition analyzeStateInteractions ::
  "node \<Rightarrow> stateInfo \<Rightarrow> string set \<Rightarrow> (string \<Rightarrow> string list option) \<Rightarrow> (pos \<Rightarrow> nat)
     \<Rightarrow> StateInteraction" where
  "analyzeStateInteractions hookBody stateInfo refVariables localFunctionSetters lineOf =
     removeDuplicates
       (fold (mainVisit (analysisEnvOf hookBody stateInfo refVariables localFunctionSetters lineOf))
          (traverse hookBody)
          (emptyInteraction\<lparr>functionReferences := collectedReferences (firstPassOf hookBody)\<rparr>))"

subsection \<open>The bucket of a call, read off the syntax tree\<close>

text \<open>
  The same classification stated on the tree alone, without the state the two traversals
  thread. A deferred receiver is a call whose callee is \<open>f\<close> or \<open>x.f\<close> with \<open>f\<close> one of
  \<open>ASYNC_CALLBACK_FUNCTIONS\<close>. Its inline callbacks are the arguments that are function
  expressions; its named callbacks are the arguments that are identifiers.
\<close>

definition deferredReceiver :: "node \<Rightarrow> bool" where
  "deferredReceiver call =
     (case callCallee call of
        None \<Rightarrow> False
      | Some callee \<Rightarrow>
          (case receivingFuncName callee of
             None \<Rightarrow> False
           | Some receiver \<Rightarrow> receiver \<noteq> [] \<and> receiver \<in> set ASYNC_CALLBACK_FUNCTIONS))"

fun identifierName :: "node \<Rightarrow> string option" where
  "identifierName (Identifier nm) = Some nm"
| "identifierName _ = None"

definition inlineDeferredCallbacks :: "path \<Rightarrow> pos list" where
  "inlineDeferredCallbacks p =
     (case p of
        [] \<Rightarrow> []
      | call # _ \<Rightarrow>
          (if deferredReceiver (snd call)
             then map fst (filter (\<lambda>a. isFunctionExpression (snd a)) (argumentRefs call))
           else []))"

definition namedDeferredCallbacks :: "path \<Rightarrow> string list" where
  "namedDeferredCallbacks p =
     (case p of
        [] \<Rightarrow> []
      | call # _ \<Rightarrow>
          (if deferredReceiver (snd call)
             then List.map_filter (\<lambda>a. identifierName (snd a)) (argumentRefs call)
           else []))"

text \<open>
  A local definition is a variable declarator whose initialiser is a function expression,
  or a function declaration with a name. A name is resolved to the last definition of
  that name in traversal order.
\<close>

definition localDefinitionAt :: "path \<Rightarrow> (string \<times> pos) option" where
  "localDefinitionAt p =
     (case p of
        [] \<Rightarrow> None
      | r # _ \<Rightarrow>
          (case snd r of
             VariableDeclarator (Identifier nm) (Some init) \<Rightarrow>
               (if isFunctionExpression init then Some (nm, fst r @ [1]) else None)
           | FunctionDeclaration (Some (Identifier nm)) params body \<Rightarrow> Some (nm, fst r)
           | _ \<Rightarrow> None))"

definition localDefinitionOf :: "node \<Rightarrow> string \<Rightarrow> pos option" where
  "localDefinitionOf hookBody =
     map_of (rev (List.map_filter localDefinitionAt (traverse hookBody)))"

definition deferredCallbacks :: "node \<Rightarrow> pos list" where
  "deferredCallbacks hookBody =
     concat (map inlineDeferredCallbacks (traverse hookBody))
     @ List.map_filter (localDefinitionOf hookBody)
         (concat (map namedDeferredCallbacks (traverse hookBody)))"

text \<open>
  A returned closure is a function expression that is the argument of a \<open>return\<close>
  statement, at any depth below the analysed body.
\<close>

definition returnedClosureAt :: "path \<Rightarrow> pos option" where
  "returnedClosureAt p =
     (case p of
        [] \<Rightarrow> None
      | r # _ \<Rightarrow>
          (case snd r of
             ReturnStatement (Some returnArg) \<Rightarrow>
               (if isFunctionExpression returnArg then Some (fst r @ [0]) else None)
           | _ \<Rightarrow> None))"

definition returnedClosures :: "node \<Rightarrow> pos list" where
  "returnedClosures hookBody = List.map_filter returnedClosureAt (traverse hookBody)"

definition insideOneOf :: "pos list \<Rightarrow> path \<Rightarrow> bool" where
  "insideOneOf qs p = list_ex (\<lambda>a. fst a \<in> set qs) (parentChain p)"

datatype bucket = Deferred | Cleanup | Immediate

definition bucketOf :: "node \<Rightarrow> path \<Rightarrow> bucket" where
  "bucketOf hookBody p =
     (if insideOneOf (deferredCallbacks hookBody) p then Deferred
      else if insideOneOf (returnedClosures hookBody) p then Cleanup
      else Immediate)"

text \<open>
  The setters a call expression stands for: the setter itself when the callee is one, the
  setters the called local function is known to reach otherwise.
\<close>

definition settersReachedAt ::
  "string list \<Rightarrow> (string \<Rightarrow> string list option) \<Rightarrow> path \<Rightarrow> string list" where
  "settersReachedAt setterNames localFunctionSetters p =
     (case pathNode p of
        Some (CallExpression (Identifier calleeName) args) \<Rightarrow>
          (if calleeName \<in> set setterNames then [calleeName]
           else (case localFunctionSetters calleeName of None \<Rightarrow> [] | Some setters \<Rightarrow> setters))
      | _ \<Rightarrow> [])"

definition guardAt :: "stateInfo \<Rightarrow> path \<Rightarrow> string \<Rightarrow> GuardedModification option" where
  "guardAt stateInfo p setr =
     (case p of
        [] \<Rightarrow> None
      | call # _ \<Rightarrow>
          analyzeConditionalGuard call (getAncestorStack p) setr (setterToStateOf stateInfo setr))"

definition unsafelyGuarded :: "stateInfo \<Rightarrow> path \<Rightarrow> string \<Rightarrow> bool" where
  "unsafelyGuarded stateInfo p setr =
     (case guardAt stateInfo p setr of None \<Rightarrow> False | Some g \<Rightarrow> \<not> isSafe g)"

text \<open>The setters a visit records in a given bucket.\<close>

definition recordedIn ::
  "node \<Rightarrow> stateInfo \<Rightarrow> (string \<Rightarrow> string list option) \<Rightarrow> bucket \<Rightarrow> path \<Rightarrow> string list" where
  "recordedIn hookBody stateInfo localFunctionSetters b p =
     (if bucketOf hookBody p = b
        then settersReachedAt (setterNamesOf stateInfo) localFunctionSetters p
      else [])"

section \<open>Local functions and the setters they reach\<close>

text \<open>
  JavaScript maps that are iterated are association lists in insertion order:
  \<open>Map.set\<close> is \<open>AList.update\<close> (an existing key keeps its place), \<open>get(k) || []\<close> is
  \<open>lookupOrEmpty\<close>.
\<close>

definition lookupOrEmpty :: "(string \<times> string list) list \<Rightarrow> string \<Rightarrow> string list" where
  "lookupOrEmpty m k = (case map_of m k of None \<Rightarrow> [] | Some xs \<Rightarrow> xs)"

text \<open>The names called by the call expressions below a node, in traversal order.\<close>

definition calleeNamesIn :: "node \<Rightarrow> string list" where
  "calleeNamesIn n =
     List.map_filter
       (\<lambda>p. case pathNode p of
               Some (CallExpression (Identifier calleeName) args) \<Rightarrow> Some calleeName
             | _ \<Rightarrow> None)
       (traverse n)"

definition findSettersCalledInFunction :: "string list \<Rightarrow> node \<Rightarrow> string list" where
  "findSettersCalledInFunction setterNames funcNode =
     filter (\<lambda>calleeName. calleeName \<in> set setterNames) (calleeNamesIn funcNode)"

definition findFunctionsCalledInFunction :: "string list \<Rightarrow> node \<Rightarrow> string list" where
  "findFunctionsCalledInFunction knownFunctions funcNode =
     filter (\<lambda>calleeName. calleeName \<in> set knownFunctions) (calleeNamesIn funcNode)"

text \<open>First pass: the function definitions of the file, by name.\<close>

definition collectFunctionBody :: "path \<Rightarrow> (string \<times> node) list \<Rightarrow> (string \<times> node) list" where
  "collectFunctionBody p functionBodies =
     (case pathNode p of
        Some (VariableDeclarator (Identifier varName) (Some init)) \<Rightarrow>
          (if isFunctionExpression init then AList.update varName init functionBodies
           else functionBodies)
      | Some (FunctionDeclaration (Some (Identifier funcName)) params body) \<Rightarrow>
          AList.update funcName (FunctionDeclaration (Some (Identifier funcName)) params body)
            functionBodies
      | _ \<Rightarrow> functionBodies)"

definition functionBodiesOf :: "node \<Rightarrow> (string \<times> node) list" where
  "functionBodiesOf ast = fold collectFunctionBody (traverse ast) []"

text \<open>
  The two maps built from the bodies: a function is entered only when the list found for
  it is not empty.
\<close>

definition nonEmptyEntries ::
  "(node \<Rightarrow> string list) \<Rightarrow> (string \<times> node) list \<Rightarrow> (string \<times> string list) list" where
  "nonEmptyEntries f functionBodies =
     fold (\<lambda>(funcName, funcBody) m.
             if length (f funcBody) > 0 then AList.update funcName (f funcBody) m else m)
       functionBodies []"

text \<open>\<open>Set.add\<close> on a set kept in insertion order.\<close>

definition setAdd :: "'a list \<Rightarrow> 'a \<Rightarrow> 'a list" where
  "setAdd xs x = (if x \<in> set xs then xs else xs @ [x])"

text \<open>
  The set built for one entry of the call graph: the current setters, grown by the
  setters of each called function in turn (the inner loops of the third pass).
\<close>

definition grow :: "(string \<times> string list) list \<Rightarrow> string list \<Rightarrow> string list \<Rightarrow> string list" where
  "grow m calledFunctions acc =
     fold (\<lambda>calledFunc acc. fold (\<lambda>setr acc'. setAdd acc' setr) (lookupOrEmpty m calledFunc) acc)
       calledFunctions acc"

text \<open>
  Third pass: one step for one entry of the call graph. The set of the current setters
  is grown by the setters of every called function, and stored when it has grown.
\<close>

definition propagateInto ::
  "string \<times> string list \<Rightarrow> (string \<times> string list) list \<times> bool
     \<Rightarrow> (string \<times> string list) list \<times> bool" where
  "propagateInto entry st =
     (case (entry, st) of
        ((funcName, calledFunctions), (functionsCallingSetters, changed)) \<Rightarrow>
          (let currentSettersSet = uniq (lookupOrEmpty functionsCallingSetters funcName);
               originalSize = length currentSettersSet;
               grown = grow functionsCallingSetters calledFunctions currentSettersSet
           in if length grown > originalSize
              then (AList.update funcName grown functionsCallingSetters, True)
              else (functionsCallingSetters, changed)))"

definition propagationPass ::
  "(string \<times> string list) list \<Rightarrow> (string \<times> string list) list
     \<Rightarrow> (string \<times> string list) list \<times> bool" where
  "propagationPass functionCallingFunctions functionsCallingSetters =
     fold propagateInto functionCallingFunctions (functionsCallingSetters, False)"

definition maxIterations :: nat where
  "maxIterations = 100"

text \<open>
  The \<open>while (changed && iterations < maxIterations)\<close> loop. It returns the map together
  with the number of passes it made.
\<close>

function propagateLoop ::
  "(string \<times> string list) list \<Rightarrow> (string \<times> string list) list \<Rightarrow> bool \<Rightarrow> nat
     \<Rightarrow> (string \<times> string list) list \<times> nat" where
  "propagateLoop functionCallingFunctions functionsCallingSetters changed iterations =
     (if changed \<and> iterations < maxIterations
      then (case propagationPass functionCallingFunctions functionsCallingSetters of
              (m, changed') \<Rightarrow> propagateLoop functionCallingFunctions m changed' (iterations + 1))
      else (functionsCallingSetters, iterations))"
  by pat_completeness auto
termination
  by (relation "measure (\<lambda>(c, m, changed, iterations). maxIterations - iterations)") auto

declare propagateLoop.simps [simp del]

definition directSetters :: "node \<Rightarrow> stateInfo \<Rightarrow> (string \<times> string list) list" where
  "directSetters ast stateInfo =
     nonEmptyEntries (findSettersCalledInFunction (setterNamesOf stateInfo))
       (functionBodiesOf ast)"

definition callGraph :: "node \<Rightarrow> (string \<times> string list) list" where
  "callGraph ast =
     nonEmptyEntries (findFunctionsCalledInFunction (map fst (functionBodiesOf ast)))
       (functionBodiesOf ast)"

definition buildLocalFunctionSetterMapCounted ::
  "node \<Rightarrow> stateInfo \<Rightarrow> (string \<times> string list) list \<times> nat" where
  "buildLocalFunctionSetterMapCounted ast stateInfo =
     propagateLoop (callGraph ast) (directSetters ast stateInfo) True 0"

definition buildLocalFunctionSetterMap :: "node \<Rightarrow> stateInfo \<Rightarrow> (string \<times> string list) list" where
  "buildLocalFunctionSetterMap ast stateInfo = fst (buildLocalFunctionSetterMapCounted ast stateInfo)"

section \<open>Effects without a dependency array\<close>

datatype analysisType = ConfirmedInfiniteLoop | PotentialIssue | SafePattern

datatype IssueCategory = Critical | Warning | Performance | Safe

text \<open>
  The finding (\<open>HookAnalysis\<close>) as \<open>createAnalysis\<close> builds it. Severity has the same three
  levels as confidence. \<open>debugInfo\<close> is set only from a parameter that
  \<open>detectUseEffectWithoutDeps\<close> does not pass.
\<close>

record HookAnalysis =
  haType :: analysisType
  errorCode :: string
  category :: IssueCategory
  description :: string
  haFile :: string
  haLine :: nat
  haColumn :: "nat option"
  hookType :: string
  problematicDependency :: string
  haStateVariable :: "string option"
  haSetterFunction :: "string option"
  severity :: ConfidenceLevel
  confidence :: ConfidenceLevel
  explanation :: string
  suggestion :: "string option"
  actualStateModifications :: "string list"
  stateReads :: "string list"

definition errorDescriptions :: "(string \<times> string) list" where
  "errorDescriptions =
     [(''RLD-100'', ''setState during render phase''),
      (''RLD-101'', ''setState via function call during render''),
      (''RLD-200'', ''Unconditional setState in effect dependency loop''),
      (''RLD-201'', ''Missing dependency array with setState''),
      (''RLD-202'', ''Unconditional setState in useLayoutEffect''),
      (''RLD-300'', ''Cross-file infinite loop''),
      (''RLD-301'', ''Cross-file conditional modification''),
      (''RLD-400'', ''Unstable object in dependency array''),
      (''RLD-401'', ''Unstable array in dependency array''),
      (''RLD-402'', ''Unstable function in dependency array''),
      (''RLD-403'', ''Unstable function call in dependency array''),
      (''RLD-404'', ''Unstable Context.Provider value''),
      (''RLD-405'', ''Unstable prop to memoized component''),
      (''RLD-406'', ''Unstable callback in useCallback deps''),
      (''RLD-407'', ''Unstable getSnapshot in useSyncExternalStore''),
      (''RLD-408'', ''Unstable key prop causes remounting''),
      (''RLD-409'', ''Index used as key''),
      (''RLD-410'', ''Object spread guard may not prevent loop''),
      (''RLD-420'', ''Memoized hook modifies its dependency''),
      (''RLD-500'', ''Missing dependency array''),
      (''RLD-501'', ''Conditional modification needs review''),
      (''RLD-600'', ''Render-phase ref mutation with state value'')]"

definition getDescriptionForErrorCode :: "string \<Rightarrow> string \<Rightarrow> string" where
  "getDescriptionForErrorCode code hook =
     (case map_of errorDescriptions code of
        Some d \<Rightarrow> if d \<noteq> [] then d else hook @ '' issue''
      | None \<Rightarrow> hook @ '' issue'')"

text \<open>
  The setters a function body calls or hands over as an argument (\<open>.then(setData)\<close>):
  the helper local to \<open>detectUseEffectWithoutDeps\<close>.
\<close>

definition settersOfCall :: "string list \<Rightarrow> node \<Rightarrow> string list" where
  "settersOfCall setterNames n =
     (case n of
        CallExpression callee args \<Rightarrow>
          (case callee of
             Identifier calleeName \<Rightarrow> (if calleeName \<in> set setterNames then [calleeName] else [])
           | _ \<Rightarrow> [])
          @ concat (map (\<lambda>arg. case arg of
                                Identifier a \<Rightarrow> (if a \<in> set setterNames then [a] else [])
                              | _ \<Rightarrow> []) args)
      | _ \<Rightarrow> [])"

definition findSettersCalledOrPassed :: "string list \<Rightarrow> node \<Rightarrow> string list" where
  "findSettersCalledOrPassed setterNames funcNode =
     concat (map (\<lambda>p. case pathNode p of Some n \<Rightarrow> settersOfCall setterNames n | None \<Rightarrow> [])
               (traverse funcNode))"

text \<open>
  First pass: the local functions, and the methods of local object literals (under the
  key \<open>object.method\<close>), that reach a setter.
\<close>

record callingSetters =
  functionsCallingSetters :: "string \<Rightarrow> string list option"
  objectMethodsCallingSetters :: "string \<Rightarrow> string list option"

fun methodNameOf :: "node \<Rightarrow> string option" where
  "methodNameOf (Identifier nm) = Some nm"
| "methodNameOf (StringLiteral v) = Some v"
| "methodNameOf _ = None"

text \<open>The first character is an upper-case letter: \<open>/^[A-Z]/\<close>.\<close>

definition startsUpperCase :: "string \<Rightarrow> bool" where
  "startsUpperCase nm = (case nm of [] \<Rightarrow> False | c # _ \<Rightarrow> c \<in> set ''ABCDEFGHIJKLMNOPQRSTUVWXYZ'')"

definition noteObjectMember ::
  "string list \<Rightarrow> string \<Rightarrow> node \<Rightarrow> callingSetters \<Rightarrow> callingSetters" where
  "noteObjectMember setterNames varName prop cs =
     (let member = (case prop of
                      ObjectMethod k params body computed \<Rightarrow> Some (k, prop)
                    | ObjectProperty k v computed \<Rightarrow>
                        (if isFunctionExpression v then Some (k, v) else None)
                    | _ \<Rightarrow> None)
      in case member of
           None \<Rightarrow> cs
         | Some (k, fn) \<Rightarrow>
             (case methodNameOf k of
                None \<Rightarrow> cs
              | Some methodName \<Rightarrow>
                  (if methodName = [] then cs
                   else if findSettersCalledOrPassed setterNames fn \<noteq> []
                     then cs\<lparr>objectMethodsCallingSetters :=
                               (objectMethodsCallingSetters cs)
                                 (varName @ ''.'' @ methodName
                                    \<mapsto> findSettersCalledOrPassed setterNames fn)\<rparr>
                   else cs)))"

definition noteLocalFunction :: "string list \<Rightarrow> path \<Rightarrow> callingSetters \<Rightarrow> callingSetters" where
  "noteLocalFunction setterNames p cs =
     (case pathNode p of
        Some (VariableDeclarator (Identifier varName) (Some init)) \<Rightarrow>
          (if isFunctionExpression init then
             (if findSettersCalledOrPassed setterNames init \<noteq> []
                then cs\<lparr>functionsCallingSetters :=
                          (functionsCallingSetters cs)
                            (varName \<mapsto> findSettersCalledOrPassed setterNames init)\<rparr>
              else cs)
           else (case init of
                   ObjectExpression properties \<Rightarrow>
                     fold (noteObjectMember setterNames varName) properties cs
                 | _ \<Rightarrow> cs))
      | Some (FunctionDeclaration (Some (Identifier funcName)) params body) \<Rightarrow>
          (if funcName = [] \<or> startsUpperCase funcName then cs
           else if findSettersCalledOrPassed setterNames
                     (FunctionDeclaration (Some (Identifier funcName)) params body) \<noteq> []
             then cs\<lparr>functionsCallingSetters :=
                       (functionsCallingSetters cs)
                         (funcName \<mapsto> findSettersCalledOrPassed setterNames
                             (FunctionDeclaration (Some (Identifier funcName)) params body))\<rparr>
           else cs)
      | _ \<Rightarrow> cs)"

definition callingSettersOf :: "string list \<Rightarrow> node \<Rightarrow> callingSetters" where
  "callingSettersOf setterNames ast =
     fold (noteLocalFunction setterNames) (traverse ast)
       \<lparr>functionsCallingSetters = Map.empty, objectMethodsCallingSetters = Map.empty\<rparr>"

text \<open>
  Second pass, inside the callback of one effect: the setters reached
  (\<open>setterCallsInCallback\<close>) and the local functions and methods through which they are
  reached (\<open>functionCallsInCallback\<close>).
\<close>

definition noteCallInCallback ::
  "string list \<Rightarrow> callingSetters \<Rightarrow> path \<Rightarrow> string list \<times> string list \<Rightarrow> string list \<times> string list" where
  "noteCallInCallback setterNames cs p acc =
     (case acc of
        (setterCalls, functionCalls) \<Rightarrow>
          (case pathNode p of
             Some (CallExpression (Identifier calleeName) args) \<Rightarrow>
               (let setterCalls1 = (if calleeName \<in> set setterNames
                                    then setterCalls @ [calleeName] else setterCalls)
                in case functionsCallingSetters cs calleeName of
                     Some indirectSetters \<Rightarrow>
                       (setterCalls1 @ indirectSetters, functionCalls @ [calleeName])
                   | None \<Rightarrow> (setterCalls1, functionCalls))
           | Some (CallExpression (MemberExpression (Identifier ob) (Identifier pr) computed) args) \<Rightarrow>
               (case objectMethodsCallingSetters cs (ob @ ''.'' @ pr) of
                  Some indirectSetters \<Rightarrow>
                    (setterCalls @ indirectSetters, functionCalls @ [ob @ ''.'' @ pr])
                | None \<Rightarrow> (setterCalls, functionCalls))
           | _ \<Rightarrow> acc))"

definition quoted :: "string \<Rightarrow> string" where
  "quoted s = [CHR 0x27] @ s @ ''()'' @ [CHR 0x27]"

definition missingDepsFinding ::
  "(string \<Rightarrow> string option) \<Rightarrow> string \<Rightarrow> string \<Rightarrow> nat \<Rightarrow> string list \<Rightarrow> string list
     \<Rightarrow> HookAnalysis option" where
  "missingDepsFinding setterToState fileName hookName lineNo setterCalls functionCalls =
     (case setterCalls of
        [] \<Rightarrow> None
      | firstSetter # _ \<Rightarrow>
          Some \<lparr>haType = ConfirmedInfiniteLoop,
                errorCode = ''RLD-201'',
                category = Critical,
                description = getDescriptionForErrorCode ''RLD-201'' hookName,
                haFile = fileName,
                haLine = lineNo,
                haColumn = None,
                hookType = hookName,
                problematicDependency = ''missing-deps'',
                haStateVariable =
                  Some (case setterToState firstSetter of
                          Some sv \<Rightarrow> if sv \<noteq> [] then sv else firstSetter
                        | None \<Rightarrow> firstSetter),
                haSetterFunction = Some firstSetter,
                severity = High,
                confidence = (if functionCalls \<noteq> [] then Medium else High),
                explanation =
                  (case functionCalls of
                     firstFunction # _ \<Rightarrow>
                       hookName @ '' has no dependency array, so it runs after every render. ''
                       @ ''It calls '' @ quoted firstFunction @ '' which calls ''
                       @ quoted firstSetter @ '', triggering re-renders.''
                   | [] \<Rightarrow>
                       hookName @ '' has no dependency array, so it runs after every render. ''
                       @ ''It calls '' @ quoted firstSetter
                       @ '' which triggers a re-render, causing an infinite loop.''),
                suggestion =
                  Some (''Add a dependency array: useEffect(() => { ... }, []) for run-once, ''
                        @ ''or [dep1, dep2] for specific dependencies.''),
                actualStateModifications = setterCalls,
                stateReads = []\<rparr>)"

text \<open>
  The visitor of the second pass on one node. \<open>ignoredLine\<close> stands for the test
  \<open>fileContent && isHookIgnored(fileContent, line)\<close>, a predicate on the line;
  \<open>lineOf\<close> gives the start line of the node at a position.
\<close>

record detectEnv =
  deSetterNames :: "string list"
  deSetterToState :: "string \<Rightarrow> string option"
  deCallingSetters :: callingSetters
  deFilePath :: string
  deIgnoredLine :: "nat \<Rightarrow> bool"
  deLineOf :: "pos \<Rightarrow> nat"

definition effectFinding :: "detectEnv \<Rightarrow> path \<Rightarrow> HookAnalysis option" where
  "effectFinding env p =
     (case (pathPos p, pathNode p) of
        (Some q, Some (CallExpression (Identifier hookName) args)) \<Rightarrow>
          (if hookName \<noteq> ''useEffect'' \<and> hookName \<noteq> ''useLayoutEffect'' then None
           else if length args \<noteq> 1 then None
           else if \<not> isFunctionExpression (hd args) then None
           else if deIgnoredLine env (deLineOf env q) then None
           else (case fold (noteCallInCallback (deSetterNames env) (deCallingSetters env))
                        (traverse (hd args)) ([], []) of
                   (setterCalls, functionCalls) \<Rightarrow>
                     missingDepsFinding (deSetterToState env) (deFilePath env) hookName
                       (deLineOf env q) setterCalls functionCalls))
      | _ \<Rightarrow> None)"

definition detectEnvOf ::
  "node \<Rightarrow> stateInfo \<Rightarrow> string \<Rightarrow> (nat \<Rightarrow> bool) \<Rightarrow> (pos \<Rightarrow> nat) \<Rightarrow> detectEnv" where
  "detectEnvOf ast stateInfo fileName ignoredLine lineOf =
     \<lparr>deSetterNames = setterNamesOf stateInfo,
      deSetterToState = setterToStateOf stateInfo,
      deCallingSetters = callingSettersOf (setterNamesOf stateInfo) ast,
      deFilePath = fileName,
      deIgnoredLine = ignoredLine,
      deLineOf = lineOf\<rparr>"

text \<open>
  The findings in the order in which the traversal produces them, each with the path of
  the call expression whose visit pushed it.
\<close>

definition detectUseEffectWithoutDepsAt ::
  "node \<Rightarrow> stateInfo \<Rightarrow> string \<Rightarrow> (nat \<Rightarrow> bool) \<Rightarrow> (pos \<Rightarrow> nat) \<Rightarrow> (path \<times> HookAnalysis) list" where
  "detectUseEffectWithoutDepsAt ast stateInfo fileName ignoredLine lineOf =
     List.map_filter
       (\<lambda>p. map_option (Pair p)
              (effectFinding (detectEnvOf ast stateInfo fileName ignoredLine lineOf) p))
       (traverse ast)"

definition detectUseEffectWithoutDeps ::
  "node \<Rightarrow> stateInfo \<Rightarrow> string \<Rightarrow> (nat \<Rightarrow> bool) \<Rightarrow> (pos \<Rightarrow> nat) \<Rightarrow> HookAnalysis list" where
  "detectUseEffectWithoutDeps ast stateInfo fileName ignoredLine lineOf =
     map snd (detectUseEffectWithoutDepsAt ast stateInfo fileName ignoredLine lineOf)"

text \<open>An effect call with exactly one argument, an inline function.\<close>

definition inlineSingleArgumentEffect :: "path \<Rightarrow> bool" where
  "inlineSingleArgumentEffect p =
     (case pathNode p of
        Some (CallExpression (Identifier hookName) [callback]) \<Rightarrow>
          (hookName = ''useEffect'' \<or> hookName = ''useLayoutEffect'')
          \<and> isFunctionExpression callback
      | _ \<Rightarrow> False)"

section \<open>Example inputs\<close>

text \<open>Concrete inputs at which the properties below are evaluated.\<close>

definition exampleVar :: "string \<Rightarrow> UnstableVariable" where
  "exampleVar nm = \<lparr>uvName = nm, uvType = ObjectKind, uvLine = 3, isMemoized = False,
     isModuleLevel = False, componentName = Some ''App'', componentStartLine = Some 1,
     componentEndLine = Some 9\<rparr>"

definition exampleFacts :: stabilityFacts where
  "exampleFacts = \<lparr>unstableVars = [(''App:options'', exampleVar ''options''),
                                   (''App:count'', exampleVar ''count''),
                                   (''App:style'', exampleVar ''style'')],
      memoizedVars = [''App'' \<mapsto> {''style''}],
      stateVars = {''count''}, refVars = {}, moduleLevelVars = {}\<rparr>"

definition conflictingConfig :: StabilityConfig where
  "conflictingConfig = \<lparr>stableHooks = Some [''useStore''], unstableHooks = Some [''useStore''],
      stableHookPatterns = None, unstableHookPatterns = None\<rparr>"

definition presetConfig :: StabilityConfig where
  "presetConfig = \<lparr>stableHooks = Some [''useStore''], unstableHooks = Some [''useQuery''],
      stableHookPatterns = None, unstableHookPatterns = None\<rparr>"

text \<open>A type checker that contradicts \<open>presetConfig\<close> on both of its names.\<close>

definition objectTypeChecker :: TypeChecker where
  "objectTypeChecker file lineNo nm = ReturnInfo (nm = ''useQuery'')"

definition exampleContext :: StabilityCheckContext where
  "exampleContext = \<lparr>filePath = Some ''App.tsx'', ctxLine = Some 7\<rparr>"

text \<open>\<open>if (props.items != prevItems) { setSelection([]) }\<close>, seen from the call.\<close>

definition resetCall :: node where
  "resetCall = CallExpression (Identifier ''setSelection'') [ArrayExpression []]"

definition resetTest :: node where
  "resetTest = BinaryExpression ''!='' (MemberExpression (Identifier ''props'') (Identifier ''items'') False)
                 (Identifier ''prevItems'')"

definition resetStack :: "node list" where
  "resetStack = [resetCall, ExpressionStatement resetCall,
                 BlockStatement [ExpressionStatement resetCall],
                 IfStatement resetTest (BlockStatement [ExpressionStatement resetCall]) None]"

text \<open>\<open>if (userId !== prevUserId) setDraft('')\<close>, seen from the call.\<close>

definition draftCall :: node where
  "draftCall = CallExpression (Identifier ''setDraft'') [StringLiteral []]"

definition draftStack :: "node list" where
  "draftStack = [draftCall, ExpressionStatement draftCall,
                 IfStatement (BinaryExpression ''!=='' (Identifier ''userId'') (Identifier ''prevUserId''))
                   (ExpressionStatement draftCall) None]"

text \<open>\<open>if (count > 3) { if (ready) setCount(0) }\<close>, seen from the call.\<close>

definition unlistedCall :: node where
  "unlistedCall = CallExpression (Identifier ''setCount'') [NumericLiteral 0]"

definition unlistedStack :: "node list" where
  "unlistedStack = [unlistedCall, ExpressionStatement unlistedCall,
                    IfStatement (Identifier ''ready'') (ExpressionStatement unlistedCall) None,
                    BlockStatement [IfStatement (Identifier ''ready'') (ExpressionStatement unlistedCall) None],
                    IfStatement (BinaryExpression ''>'' (Identifier ''count'') (NumericLiteral 3))
                      (BlockStatement [IfStatement (Identifier ''ready'') (ExpressionStatement unlistedCall) None])
                      None]"

text \<open>\<open>if (row !== prevRow) { if (enabled) setPrevRow(row) }\<close>, seen from the call.\<close>

definition derivedCall :: node where
  "derivedCall = CallExpression (Identifier ''setPrevRow'') [Identifier ''row'']"

definition derivedStack :: "node list" where
  "derivedStack = [derivedCall, ExpressionStatement derivedCall,
                   IfStatement (Identifier ''enabled'') (ExpressionStatement derivedCall) None,
                   BlockStatement [IfStatement (Identifier ''enabled'') (ExpressionStatement derivedCall) None],
                   IfStatement (BinaryExpression ''!=='' (Identifier ''row'') (Identifier ''prevRow''))
                     (BlockStatement [IfStatement (Identifier ''enabled'') (ExpressionStatement derivedCall) None])
                     None]"

text \<open>\<open>if (value !== next) setValue(next)\<close> in an effect, seen from the call.\<close>

definition equalityCall :: nref where
  "equalityCall = ([0, 1, 0], CallExpression (Identifier ''setValue'') [Identifier ''next''])"

definition equalityStack :: "nref list" where
  "equalityStack =
     [equalityCall,
      ([0, 1], ExpressionStatement (snd equalityCall)),
      ([0], IfStatement (BinaryExpression ''!=='' (Identifier ''value'') (Identifier ''next''))
              (ExpressionStatement (snd equalityCall)) None)]"

text \<open>The effect callback \<open>() => { if (!state) { setState(); } }\<close>.\<close>

definition falsyGuardBody :: "string \<Rightarrow> string \<Rightarrow> node" where
  "falsyGuardBody stateVar setr =
     ArrowFunctionExpression []
       (BlockStatement
          [IfStatement (UnaryExpression ''!'' (Identifier stateVar))
             (BlockStatement [ExpressionStatement (CallExpression (Identifier setr) [])])
             None])"

text \<open>The effect callback \<open>() => { return () => { setCount(0); setCount(1); }; }\<close>.\<close>

definition cleanupBody :: node where
  "cleanupBody =
     ArrowFunctionExpression []
       (BlockStatement
          [ReturnStatement
             (Some (ArrowFunctionExpression []
                (BlockStatement
                   [ExpressionStatement (CallExpression (Identifier ''setCount'') [NumericLiteral 0]),
                    ExpressionStatement (CallExpression (Identifier ''setCount'') [NumericLiteral 1])])))])"

text \<open>
  \<open>function ping() { pong(); }  function pong() { ping(); setCount(1); }\<close>
\<close>

definition pingBody :: node where
  "pingBody =
     FunctionDeclaration (Some (Identifier ''ping'')) []
       (BlockStatement [ExpressionStatement (CallExpression (Identifier ''pong'') [])])"

definition pongBody :: node where
  "pongBody =
     FunctionDeclaration (Some (Identifier ''pong'')) []
       (BlockStatement
          [ExpressionStatement (CallExpression (Identifier ''ping'') []),
           ExpressionStatement (CallExpression (Identifier ''setCount'') [NumericLiteral 1])])"

definition pingPongProgram :: node where
  "pingPongProgram = OtherNode ''Program'' [pingBody, pongBody]"

text \<open>
  A component body with four statements: the declaration of \<open>doWork\<close>, which calls
  \<open>setCount\<close>; \<open>useEffect(doWork)\<close>; an effect with a dependency array; and an effect
  with an inline callback and no dependency array. The second program keeps only the first
  two statements.
\<close>

definition effectsProgram :: node where
  "effectsProgram =
     OtherNode ''Program''
       [FunctionDeclaration (Some (Identifier ''doWork'')) []
          (BlockStatement [ExpressionStatement (CallExpression (Identifier ''setCount'') [NumericLiteral 0])]),
        ExpressionStatement (CallExpression (Identifier ''useEffect'') [Identifier ''doWork'']),
        ExpressionStatement
          (CallExpression (Identifier ''useEffect'')
             [ArrowFunctionExpression [] (CallExpression (Identifier ''setCount'') [NumericLiteral 1]),
              ArrayExpression [Identifier ''count'']]),
        ExpressionStatement
          (CallExpression (Identifier ''useEffect'')
             [ArrowFunctionExpression []
                (BlockStatement
                   [ExpressionStatement (CallExpression (Identifier ''setCount'') [NumericLiteral 2])])])]"

definition effectsFindings :: "(path \<times> HookAnalysis) list" where
  "effectsFindings =
     detectUseEffectWithoutDepsAt effectsProgram [(''count'', ''setCount'')] ''App.tsx''
       (\<lambda>l. False) (\<lambda>q. 10 + hd q)"

definition namedEffectProgram :: node where
  "namedEffectProgram =
     OtherNode ''Program''
       [FunctionDeclaration (Some (Identifier ''doWork'')) []
          (BlockStatement [ExpressionStatement (CallExpression (Identifier ''setCount'') [NumericLiteral 0])]),
        ExpressionStatement (CallExpression (Identifier ''useEffect'') [Identifier ''doWork''])]"

text \<open>
  Three effect callbacks. \<open>() => () => setCount(0)\<close> returns its teardown closure without
  a \<open>return\<close> statement. In
  \<open>() => { const make = () => { return () => { setCount(1); }; }; make()(); }\<close> the closure
  is returned by a helper and called at once. The third has a call in each position: in a
  handler registered by name, in a timer callback, under an equality guard, at top level and
  in the returned teardown closure.
\<close>

definition implicitCleanupBody :: node where
  "implicitCleanupBody =
     ArrowFunctionExpression []
       (ArrowFunctionExpression [] (CallExpression (Identifier ''setCount'') [NumericLiteral 0]))"

definition nestedReturnBody :: node where
  "nestedReturnBody =
     ArrowFunctionExpression []
       (BlockStatement
          [VariableDeclaration
             [VariableDeclarator (Identifier ''make'')
                (Some (ArrowFunctionExpression []
                   (BlockStatement
                      [ReturnStatement
                         (Some (ArrowFunctionExpression []
                            (BlockStatement
                               [ExpressionStatement
                                  (CallExpression (Identifier ''setCount'') [NumericLiteral 1])])))])))],
           ExpressionStatement (CallExpression (CallExpression (Identifier ''make'') []) [])])"

definition bucketsBody :: node where
  "bucketsBody =
     ArrowFunctionExpression []
       (BlockStatement
          [VariableDeclaration
             [VariableDeclarator (Identifier ''onTick'')
                (Some (ArrowFunctionExpression []
                   (BlockStatement
                      [ExpressionStatement
                         (CallExpression (Identifier ''setCount'') [NumericLiteral 1])])))],
           ExpressionStatement
             (CallExpression (Identifier ''setTimeout'')
                [ArrowFunctionExpression [] (CallExpression (Identifier ''setOther'') [NumericLiteral 2]),
                 NumericLiteral 100]),
           ExpressionStatement
             (CallExpression
                (MemberExpression (Identifier ''window'') (Identifier ''addEventListener'') False)
                [StringLiteral ''tick'', Identifier ''onTick'']),
           IfStatement (BinaryExpression ''!=='' (Identifier ''count'') (NumericLiteral 3))
             (BlockStatement
                [ExpressionStatement (CallExpression (Identifier ''setCount'') [NumericLiteral 3])])
             None,
           ExpressionStatement (CallExpression (Identifier ''setOther'') [NumericLiteral 4]),
           ReturnStatement
             (Some (ArrowFunctionExpression []
                (BlockStatement
                   [ExpressionStatement
                      (CallExpression (Identifier ''setCount'') [NumericLiteral 0])])))])"

definition bucketsState :: stateInfo where
  "bucketsState = [(''count'', ''setCount''), (''other'', ''setOther'')]"


definition cleanupCallPath :: path where
  "cleanupCallPath = hd (filter (\<lambda>p. pathPos p = Some [0, 5, 0, 0, 0, 0]) (traverse bucketsBody))"

section \<open>Properties\<close>

subsection \<open>Confidence\<close>

text \<open>
  Claim C8 (confidence monotonicity). For every base confidence and every downgrade
  context, the confidence returned by \<open>_adjustConfidence\<close> is at most the base confidence
  in the ordering low < medium < high: the result is the base confidence itself, or
  medium when the base was high.
\<close>

theorem adjustConfidence_never_increases:
  "confidenceRank (adjustConfidence baseConfidence ctx) \<le> confidenceRank baseConfidence
   \<and> (adjustConfidence baseConfidence ctx = baseConfidence
      \<or> (baseConfidence = High \<and> adjustConfidence baseConfidence ctx = Medium))"
  by (cases baseConfidence) (simp_all add: adjustConfidence_def Let_def)

subsection \<open>Stability classification\<close>

text \<open>
  Claim C7, as the code has it. As claimed, the configuration is consulted before any
  type information. The claim's "a name configured stable yields true" fails for a name
  that is configured unstable as well: the deny list is tested first and wins. With the
  preset \<open>conflictingConfig\<close>, which lists \<open>useStore\<close> on both sides, the call is
  classified unstable although the name is configured stable.
\<close>

theorem stable_name_also_unstable_counterexample:
  "isConfiguredStableHook ''useStore'' conflictingConfig
   \<and> \<not> isStableFunctionCall (CallExpression (Identifier ''useStore'') []) None None
         (Some conflictingConfig)"
  by (simp add: isConfiguredStableHook_def isConfiguredUnstableHook_def conflictingConfig_def
      isStableFunctionCall_def STABLE_REACT_HOOKS_def STABLE_FUNCTION_CALLS_def)

text \<open>
  Claim C7, amended. For an identifier callee that is neither a built-in stable React
  hook nor a known stable function, and a given configuration: a name configured
  unstable yields false; a name configured stable and not configured unstable yields
  true; in both cases no query is sent to the type checker, so the verdict does not
  depend on it; and whenever a query is sent to the type checker, the configuration
  resolves the name neither way.
\<close>

theorem configuration_precedes_type_checker:
  assumes "nm \<notin> set STABLE_REACT_HOOKS" and "nm \<notin> set STABLE_FUNCTION_CALLS"
  shows "(isConfiguredUnstableHook nm cfg \<longrightarrow>
            isStableFunctionCallTraced (CallExpression (Identifier nm) args) context typeChecker
              (Some cfg) = (False, []))
       \<and> (\<not> isConfiguredUnstableHook nm cfg \<and> isConfiguredStableHook nm cfg \<longrightarrow>
            isStableFunctionCallTraced (CallExpression (Identifier nm) args) context typeChecker
              (Some cfg) = (True, []))
       \<and> (snd (isStableFunctionCallTraced (CallExpression (Identifier nm) args) context
                 typeChecker (Some cfg)) \<noteq> []
            \<longrightarrow> \<not> isConfiguredUnstableHook nm cfg \<and> \<not> isConfiguredStableHook nm cfg)"
  using assms by auto

theorem configuration_precedes_type_checker_witness:
  "isStableFunctionCallTraced (CallExpression (Identifier ''useQuery'') []) (Some exampleContext)
       (Some objectTypeChecker) (Some presetConfig) = (False, [])
   \<and> isStableFunctionCallTraced (CallExpression (Identifier ''useStore'') []) (Some exampleContext)
       (Some objectTypeChecker) (Some presetConfig) = (True, [])
   \<and> snd (isStableFunctionCallTraced (CallExpression (Identifier ''useOther'') [])
            (Some exampleContext) (Some objectTypeChecker) (Some presetConfig)) \<noteq> []
   \<and> \<not> isConfiguredUnstableHook ''useOther'' presetConfig
   \<and> \<not> isConfiguredStableHook ''useOther'' presetConfig"
proof -
  have h: "''useQuery'' \<notin> set STABLE_REACT_HOOKS" "''useQuery'' \<notin> set STABLE_FUNCTION_CALLS"
          "''useStore'' \<notin> set STABLE_REACT_HOOKS" "''useStore'' \<notin> set STABLE_FUNCTION_CALLS"
          "''useOther'' \<notin> set STABLE_REACT_HOOKS" "''useOther'' \<notin> set STABLE_FUNCTION_CALLS"
    by (simp_all add: STABLE_REACT_HOOKS_def STABLE_FUNCTION_CALLS_def)
  have u: "isConfiguredUnstableHook ''useQuery'' presetConfig"
    and s: "\<not> isConfiguredUnstableHook ''useStore'' presetConfig
            \<and> isConfiguredStableHook ''useStore'' presetConfig"
    by (simp_all add: isConfiguredUnstableHook_def isConfiguredStableHook_def presetConfig_def)
  have q: "snd (isStableFunctionCallTraced (CallExpression (Identifier ''useOther'') [])
                 (Some exampleContext) (Some objectTypeChecker) (Some presetConfig)) \<noteq> []"
    by code_simp
  from configuration_precedes_type_checker
         [OF h(1,2), of presetConfig "[]" "Some exampleContext" "Some objectTypeChecker"] u
       configuration_precedes_type_checker
         [OF h(3,4), of presetConfig "[]" "Some exampleContext" "Some objectTypeChecker"] s
       configuration_precedes_type_checker
         [OF h(5,6), of presetConfig "[]" "Some exampleContext" "Some objectTypeChecker"] q
  show ?thesis by blast
qed

subsection \<open>The final unstable set\<close>

lemma fold_delete_set:
  "set (fold AList.delete ks al) = {e \<in> set al. fst e \<notin> set ks}"
  by (induction ks arbitrary: al) (auto simp: AList.delete_eq)

text \<open>
  On a map (keys occur once) the final pass is a filter: exactly the entries that are
  not proven stable remain, in their order.
\<close>

lemma removeStableEntries_filter:
  assumes "distinct (map fst (unstableVars facts))"
  shows "removeStableEntries facts
         = filter (\<lambda>(key, unstableVar). \<not> provenStable facts unstableVar) (unstableVars facts)"
proof -
  have del: "fold AList.delete ks al = filter (\<lambda>e. fst e \<notin> set ks) al"
    for ks and al :: "(string \<times> UnstableVariable) list"
    by (induction ks arbitrary: al) (auto simp: AList.delete_eq intro!: filter_cong)
  have "filter (\<lambda>e. fst e \<notin> set (keysToDelete facts)) (unstableVars facts)
        = filter (\<lambda>(key, unstableVar). \<not> provenStable facts unstableVar) (unstableVars facts)"
  proof (rule filter_cong [OF refl])
    fix e assume e: "e \<in> set (unstableVars facts)"
    obtain k v where kv: "e = (k, v)" by (cases e)
    have "k \<in> set (keysToDelete facts) \<longleftrightarrow> provenStable facts v"
    proof
      assume "k \<in> set (keysToDelete facts)"
      then obtain v' where "(k, v') \<in> set (unstableVars facts)" "provenStable facts v'"
        by (auto simp: keysToDelete_def)
      with assms e kv show "provenStable facts v"
        by (auto dest: eq_key_imp_eq_value)
    next
      assume "provenStable facts v"
      with e kv show "k \<in> set (keysToDelete facts)"
        by (force simp: keysToDelete_def)
    qed
    with kv show "(fst e \<notin> set (keysToDelete facts))
                  = (case e of (key, unstableVar) \<Rightarrow> \<not> provenStable facts unstableVar)"
      by simp
  qed
  then show ?thesis by (simp add: removeStableEntries_def del)
qed

text \<open>
  Claim C6. Whatever the traversal of \<open>extractUnstableVariables\<close> has collected from an
  input tree, every entry that remains after the final pass is one of the collected
  entries, and its variable is not among the state variables, the ref variables or the
  module-level variables, nor among the names memoized in the scope of its component.
\<close>

theorem final_unstable_entries_not_proven_stable:
  assumes "(key, unstableVar) \<in> set (removeStableEntries facts)"
  shows "(key, unstableVar) \<in> set (unstableVars facts)
     \<and> uvName unstableVar \<notin> stateVars facts
     \<and> uvName unstableVar \<notin> refVars facts
     \<and> uvName unstableVar \<notin> moduleLevelVars facts
     \<and> (\<forall>c names. componentName unstableVar = Some c \<and> c \<noteq> []
                    \<and> memoizedVars facts c = Some names
           \<longrightarrow> uvName unstableVar \<notin> names)"
proof -
  from assms have mem: "(key, unstableVar) \<in> set (unstableVars facts)"
    and notdel: "key \<notin> set (keysToDelete facts)"
    by (auto simp: removeStableEntries_def fold_delete_set)
  from mem notdel have "\<not> provenStable facts unstableVar"
    by (force simp: keysToDelete_def)
  with mem show ?thesis
    by (auto simp: provenStable_def split: option.splits if_splits)
qed

theorem final_unstable_entries_witness:
  "(''App:options'', exampleVar ''options'') \<in> set (removeStableEntries exampleFacts)
   \<and> removeStableEntries exampleFacts = [(''App:options'', exampleVar ''options'')]
   \<and> uvName (exampleVar ''options'') \<notin> stateVars exampleFacts"
proof -
  have r: "removeStableEntries exampleFacts = [(''App:options'', exampleVar ''options'')]"
    by code_simp
  then have m: "(''App:options'', exampleVar ''options'') \<in> set (removeStableEntries exampleFacts)"
    by simp
  from final_unstable_entries_not_proven_stable [OF m] r m show ?thesis by simp
qed

subsection \<open>Evaluating a traversal\<close>

text \<open>\<open>walk\<close>, unfolded one level at a time: the form in which it is evaluated.\<close>

lemma walk_unfold [code]: "walk (r # anc) = concat (map (visitChild (r # anc)) (childRefs r))"
  unfolding visitChild_def by (subst walk.simps) (rule refl)

subsection \<open>Guard analysis\<close>

lemma analyzeCondition_listed:
  "analyzeCondition c stateVar setterCall setterName = Some r \<Longrightarrow> listedGuardShape stateVar c"
  by (induction c stateVar setterCall setterName arbitrary: r rule: analyzeCondition.induct)
     (auto simp: Let_def split: if_splits option.splits)

lemma analyzeRenderGuardCondition_safe:
  "analyzeRenderGuardCondition c stateVar setterCall = Some r \<Longrightarrow> isSafe r"
  by (induction c stateVar setterCall arbitrary: r rule: analyzeRenderGuardCondition.induct)
     (auto simp: Let_def verdict_def split: if_splits option.splits)

lemma analyzeRenderGuardCondition_shape:
  "analyzeRenderGuardCondition c stateVar setterCall = Some r
   \<Longrightarrow> listedGuardShape stateVar c \<or> resetComparisonShape c"
  by (induction c stateVar setterCall arbitrary: r rule: analyzeRenderGuardCondition.induct)
     (auto simp: Let_def split: if_splits option.splits)

lemma analyzeRenderGuardCondition_derived:
  "analyzeRenderGuardCondition c stateVar setterCall = Some r \<Longrightarrow> guardType r = DerivedState
   \<Longrightarrow> derivedStateShape stateVar setterCall c"
  by (induction c stateVar setterCall arbitrary: r rule: analyzeRenderGuardCondition.induct)
     (auto simp: Let_def verdict_def split: if_splits option.splits)

text \<open>The tests of the \<open>if\<close> statements of a list of ancestors.\<close>

abbreviation testsOf :: "node list \<Rightarrow> node list" where
  "testsOf stack \<equiv>
     List.map_filter (\<lambda>a. case a of IfStatement test consequent alternate \<Rightarrow> Some test | _ \<Rightarrow> None)
       stack"

lemma renderGuardLoop_unmatched:
  "\<forall>t \<in> set (testsOf stack). analyzeRenderGuardCondition t stateVar setterCall = None
   \<Longrightarrow> renderGuardLoop setterCall stack stateVar g
       = (if g \<or> testsOf stack \<noteq> [] then Some (verdict Unknown False) else None)"
  by (induction setterCall stack stateVar g rule: renderGuardLoop.induct)
     (auto simp: List.map_filter_simps split: node.splits option.splits)

lemma renderGuardLoop_Some:
  "renderGuardLoop setterCall stack stateVar g = Some r \<Longrightarrow>
   r = verdict Unknown False
   \<or> (\<exists>t \<in> set (testsOf stack). analyzeRenderGuardCondition t stateVar setterCall = Some r)"
  by (induction setterCall stack stateVar g rule: renderGuardLoop.induct)
     (auto simp: List.map_filter_simps split: node.splits option.splits if_splits)


lemma guardLoop_Some:
  "guardLoop setterCall stack setterName stateVar = Some g \<Longrightarrow>
   setter g = setterName \<and> stateVariable g = stateVar
   \<and> (guardType g = EarlyReturn
      \<or> (\<exists>t \<in> set (testsOf (map snd stack)). listedGuardShape stateVar t))"
  by (induction setterCall stack setterName stateVar rule: guardLoop.induct)
     (auto simp: List.map_filter_simps split: node.splits option.splits if_splits
           dest: analyzeCondition_listed)

lemma set_testsOf_rev: "set (testsOf (rev xs)) = set (testsOf xs)"
  by (auto simp: List.map_filter_def)

lemma analyzeConditionalGuard_Some:
  assumes "analyzeConditionalGuard callRef ancestorRefs setr stateVarOpt = Some g"
  shows "setter g = setr \<and> stateVarOpt = Some (stateVariable g) \<and> stateVariable g \<noteq> []
     \<and> (guardType g = EarlyReturn
        \<or> (\<exists>t \<in> set (testsOf (map snd ancestorRefs)). listedGuardShape (stateVariable g) t))"
proof -
  from assms obtain sv where sv: "stateVarOpt = Some sv" "sv \<noteq> []"
    and gl: "guardLoop callRef (rev ancestorRefs) setr sv = Some g"
    by (auto simp: analyzeConditionalGuard_def split: option.splits if_splits)
  from guardLoop_Some [OF gl] sv show ?thesis
    by (simp add: rev_map [symmetric] set_testsOf_rev)
qed







subsection \<open>Propagation of setters through the local call graph\<close>

lemma set_uniq [simp]: "set (uniq xs) = set xs"
  by (simp add: uniq_def)

lemma distinct_uniq [simp]: "distinct (uniq xs)"
  by (simp add: uniq_def)

lemma setAdd_props:
  "set (setAdd acc x) = insert x (set acc)"
  "length acc \<le> length (setAdd acc x)"
  "length (setAdd acc x) = length acc \<Longrightarrow> x \<in> set acc"
  by (auto simp: setAdd_def split: if_splits)

lemma setAdd_fold:
  "set (fold (\<lambda>x acc. setAdd acc x) xs acc) = set acc \<union> set xs
   \<and> length acc \<le> length (fold (\<lambda>x acc. setAdd acc x) xs acc)
   \<and> (length (fold (\<lambda>x acc. setAdd acc x) xs acc) = length acc \<longrightarrow> set xs \<subseteq> set acc)"
proof (induction xs arbitrary: acc)
  case Nil
  then show ?case by simp
next
  case (Cons x xs)
  let ?a = "setAdd acc x"
  let ?r = "fold (\<lambda>x acc. setAdd acc x) xs ?a"
  from Cons [of ?a]
  have ih1: "set ?r = set ?a \<union> set xs"
    and ih2: "length ?a \<le> length ?r"
    and ih3: "length ?r = length ?a \<Longrightarrow> set xs \<subseteq> set ?a"
    by simp_all
  have r: "fold (\<lambda>x acc. setAdd acc x) (x # xs) acc = ?r" by simp
  have s1: "set ?r = set acc \<union> set (x # xs)"
    unfolding ih1 setAdd_props(1) by auto
  have s2: "length acc \<le> length ?r"
    using setAdd_props(2) [of acc x] ih2 by (rule order_trans)
  have s3: "set (x # xs) \<subseteq> set acc" if eq: "length ?r = length acc"
  proof -
    from eq setAdd_props(2) [of acc x] ih2
    have la: "length ?a = length acc" and lr: "length ?r = length ?a" by linarith+
    from setAdd_props(3) [OF la] have x: "x \<in> set acc" .
    then have "set ?a = set acc" unfolding setAdd_props(1) by (simp add: insert_absorb)
    with ih3 [OF lr] x show ?thesis by simp
  qed
  show ?case unfolding r
  proof (intro conjI impI)
    show "set ?r = set acc \<union> set (x # xs)" by (rule s1)
    show "length acc \<le> length ?r" by (rule s2)
    show "set (x # xs) \<subseteq> set acc" if "length ?r = length acc" using that by (rule s3)
  qed
qed

lemma grow_props:
  "set (grow m cs acc) = set acc \<union> (\<Union>c \<in> set cs. set (lookupOrEmpty m c))
   \<and> length acc \<le> length (grow m cs acc)
   \<and> (length (grow m cs acc) = length acc \<longrightarrow> (\<forall>c \<in> set cs. set (lookupOrEmpty m c) \<subseteq> set acc))"
proof (induction cs arbitrary: acc)
  case Nil
  then show ?case by (simp add: grow_def)
next
  case (Cons c cs)
  let ?a = "fold (\<lambda>setr acc'. setAdd acc' setr) (lookupOrEmpty m c) acc"
  have g: "grow m (c # cs) acc = grow m cs ?a" by (simp add: grow_def)
  from setAdd_fold [of "lookupOrEmpty m c" acc]
  have sa1: "set ?a = set acc \<union> set (lookupOrEmpty m c)"
    and sa2: "length acc \<le> length ?a"
    and sa3: "length ?a = length acc \<Longrightarrow> set (lookupOrEmpty m c) \<subseteq> set acc"
    by simp_all
  from Cons [of ?a]
  have ih1: "set (grow m cs ?a) = set ?a \<union> (\<Union>c \<in> set cs. set (lookupOrEmpty m c))"
    and ih2: "length ?a \<le> length (grow m cs ?a)"
    and ih3: "length (grow m cs ?a) = length ?a \<Longrightarrow> \<forall>c \<in> set cs. set (lookupOrEmpty m c) \<subseteq> set ?a"
    by simp_all
  have s1: "set (grow m (c # cs) acc) = set acc \<union> (\<Union>c \<in> set (c # cs). set (lookupOrEmpty m c))"
    unfolding g ih1 sa1 by auto
  have s2: "length acc \<le> length (grow m (c # cs) acc)"
    unfolding g using sa2 ih2 by (rule order_trans)
  have s3: "\<forall>d \<in> set (c # cs). set (lookupOrEmpty m d) \<subseteq> set acc"
    if eq: "length (grow m (c # cs) acc) = length acc"
  proof -
    from eq sa2 ih2 have la: "length ?a = length acc" and lg: "length (grow m cs ?a) = length ?a"
      unfolding g by linarith+
    from sa3 [OF la] have c: "set (lookupOrEmpty m c) \<subseteq> set acc" .
    with sa1 have "set ?a = set acc" by (simp add: Un_absorb2)
    with ih3 [OF lg] have "\<forall>d \<in> set cs. set (lookupOrEmpty m d) \<subseteq> set acc" by simp
    with c show ?thesis by simp
  qed
  show ?case
  proof (intro conjI impI)
    show "set (grow m (c # cs) acc) = set acc \<union> (\<Union>c \<in> set (c # cs). set (lookupOrEmpty m c))"
      by (rule s1)
    show "length acc \<le> length (grow m (c # cs) acc)" by (rule s2)
    show "\<forall>d \<in> set (c # cs). set (lookupOrEmpty m d) \<subseteq> set acc"
      if "length (grow m (c # cs) acc) = length acc" using that by (rule s3)
  qed
qed

lemma propagateInto_eq:
  "propagateInto (f, cs) (m, ch) =
     (if length (grow m cs (uniq (lookupOrEmpty m f))) > length (uniq (lookupOrEmpty m f))
      then (AList.update f (grow m cs (uniq (lookupOrEmpty m f))) m, True) else (m, ch))"
  by (simp add: propagateInto_def Let_def)

lemma lookupOrEmpty_update:
  "lookupOrEmpty (AList.update k v m) g = (if g = k then v else lookupOrEmpty m g)"
  by (simp add: lookupOrEmpty_def update_conv')

lemma propagateInto_mono:
  "set (lookupOrEmpty m g) \<subseteq> set (lookupOrEmpty (fst (propagateInto e (m, ch))) g)"
proof (cases e)
  case (Pair f cs)
  from grow_props [of m cs "uniq (lookupOrEmpty m f)"] show ?thesis
    unfolding Pair propagateInto_eq by (auto simp: lookupOrEmpty_update)
qed

lemma propagateInto_gains:
  "c \<in> set cs \<Longrightarrow>
   set (lookupOrEmpty m c) \<subseteq> set (lookupOrEmpty (fst (propagateInto (f, cs) (m, ch))) f)"
  using grow_props [of m cs "uniq (lookupOrEmpty m f)"]
  unfolding propagateInto_eq by (auto simp: lookupOrEmpty_update)

lemma fold_propagateInto_mono:
  "set (lookupOrEmpty (fst st) g) \<subseteq> set (lookupOrEmpty (fst (fold propagateInto es st)) g)"
proof (induction es arbitrary: st)
  case Nil
  then show ?case by simp
next
  case (Cons e es)
  obtain m ch where st: "st = (m, ch)" by (cases st)
  from propagateInto_mono [of m g e ch] Cons [of "propagateInto e st"] show ?case
    unfolding st by auto
qed

lemma propagationPass_gains:
  assumes "(f, cs) \<in> set es" and "c \<in> set cs"
  shows "set (lookupOrEmpty m c) \<subseteq> set (lookupOrEmpty (fst (propagationPass es m)) f)"
proof -
  from assms(1) obtain xs ys where es: "es = xs @ (f, cs) # ys"
    by (auto simp: in_set_conv_decomp)
  obtain m1 ch1 where m1: "fold propagateInto xs (m, False) = (m1, ch1)"
    by (cases "fold propagateInto xs (m, False)")
  have a: "set (lookupOrEmpty m c) \<subseteq> set (lookupOrEmpty m1 c)"
    using fold_propagateInto_mono [of "(m, False)" c xs] by (simp add: m1)
  have b: "set (lookupOrEmpty m1 c) \<subseteq> set (lookupOrEmpty (fst (propagateInto (f, cs) (m1, ch1))) f)"
    using assms(2) by (rule propagateInto_gains)
  have c: "set (lookupOrEmpty (fst (propagateInto (f, cs) (m1, ch1))) f)
           \<subseteq> set (lookupOrEmpty (fst (fold propagateInto ys (propagateInto (f, cs) (m1, ch1)))) f)"
    by (rule fold_propagateInto_mono)
  from a b c show ?thesis by (auto simp: propagationPass_def es m1)
qed

lemma propagationPass_mono:
  "set (lookupOrEmpty m g) \<subseteq> set (lookupOrEmpty (fst (propagationPass es m)) g)"
  using fold_propagateInto_mono [of "(m, False)" g es] by (simp add: propagationPass_def)

lemma propagateLoop_mono:
  "set (lookupOrEmpty m g) \<subseteq> set (lookupOrEmpty (fst (propagateLoop es m ch it)) g)"
proof (induction es m ch it rule: propagateLoop.induct)
  case (1 es m ch it)
  show ?case
  proof (cases "ch \<and> it < maxIterations")
    case True
    obtain m' ch' where p: "propagationPass es m = (m', ch')" by (cases "propagationPass es m")
    have u: "propagateLoop es m ch it = propagateLoop es m' ch' (it + 1)"
      using True p by (subst propagateLoop.simps) simp
    from "1" [OF True p [symmetric]] propagationPass_mono [of m g es] p
    show ?thesis unfolding u by auto
  next
    case False
    then have "propagateLoop es m ch it = (m, it)" by (subst propagateLoop.simps) auto
    then show ?thesis by simp
  qed
qed

lemma propagateLoop_bound:
  "it \<le> maxIterations \<Longrightarrow> snd (propagateLoop es m ch it) \<le> maxIterations"
proof (induction es m ch it rule: propagateLoop.induct)
  case (1 es m ch it)
  show ?case
  proof (cases "ch \<and> it < maxIterations")
    case True
    obtain m' ch' where p: "propagationPass es m = (m', ch')" by (cases "propagationPass es m")
    have u: "propagateLoop es m ch it = propagateLoop es m' ch' (it + 1)"
      using True p by (subst propagateLoop.simps) simp
    from True have "it + 1 \<le> maxIterations" by simp
    from "1.IH" [OF True p [symmetric] this]
    show ?thesis unfolding u .
  next
    case False
    then have "propagateLoop es m ch it = (m, it)" by (subst propagateLoop.simps) auto
    with "1.prems" show ?thesis by simp
  qed
qed

lemma propagateLoop_first_pass:
  assumes "(f, cs) \<in> set es" and "c \<in> set cs"
  shows "set (lookupOrEmpty m c) \<subseteq> set (lookupOrEmpty (fst (propagateLoop es m True 0)) f)"
proof -
  obtain m' ch' where p: "propagationPass es m = (m', ch')" by (cases "propagationPass es m")
  have e: "propagateLoop es m True 0 = propagateLoop es m' ch' 1"
    by (subst propagateLoop.simps) (simp add: p maxIterations_def)
  have a: "set (lookupOrEmpty m c) \<subseteq> set (lookupOrEmpty m' f)"
    using propagationPass_gains [OF assms, of m] by (simp add: p)
  have b: "set (lookupOrEmpty m' f) \<subseteq> set (lookupOrEmpty (fst (propagateLoop es m' ch' 1)) f)"
    by (rule propagateLoop_mono)
  show ?thesis unfolding e using a b by (rule subset_trans)
qed


lemma collectFunctionBody_distinct:
  "distinct (map fst acc) \<Longrightarrow> distinct (map fst (collectFunctionBody p acc))"
  by (auto simp: collectFunctionBody_def distinct_update split: option.splits node.splits)

lemma functionBodiesOf_distinct: "distinct (map fst (functionBodiesOf ast))"
proof -
  have "distinct (map fst acc) \<Longrightarrow> distinct (map fst (fold collectFunctionBody ps acc))" for ps acc
    by (induction ps arbitrary: acc) (simp_all add: collectFunctionBody_distinct)
  then show ?thesis by (simp add: functionBodiesOf_def)
qed

lemma nonEmptyEntries_fold:
  "distinct (map fst bodies) \<Longrightarrow>
   map_of (fold (\<lambda>(funcName, funcBody) m.
             if length (f funcBody) > 0 then AList.update funcName (f funcBody) m else m) bodies acc) k
   = (case map_of bodies k of
        None \<Rightarrow> map_of acc k
      | Some b \<Rightarrow> if f b \<noteq> [] then Some (f b) else map_of acc k)"
proof (induction bodies arbitrary: acc)
  case Nil
  then show ?case by simp
next
  case (Cons e bodies)
  obtain n b where e: "e = (n, b)" by (cases e)
  from Cons.prems e have d: "distinct (map fst bodies)" and n: "n \<notin> fst ` set bodies" by auto
  from n have nk: "map_of bodies n = None" by (simp add: map_of_eq_None_iff)
  show ?case
    unfolding e using Cons.IH [OF d] nk
    by (auto simp: update_conv' split: option.splits)
qed

lemma map_of_nonEmptyEntries:
  "distinct (map fst bodies) \<Longrightarrow>
   map_of (nonEmptyEntries f bodies) k
   = (case map_of bodies k of None \<Rightarrow> None | Some b \<Rightarrow> if f b \<noteq> [] then Some (f b) else None)"
  unfolding nonEmptyEntries_def by (subst nonEmptyEntries_fold) (auto split: option.splits)

lemma callGraph_entry:
  assumes "map_of (functionBodiesOf ast) A = Some bodyA"
    and "map_of (functionBodiesOf ast) B = Some bodyB"
    and "B \<in> set (calleeNamesIn bodyA)"
  shows "\<exists>cs. (A, cs) \<in> set (callGraph ast) \<and> B \<in> set cs"
proof -
  let ?f = "findFunctionsCalledInFunction (map fst (functionBodiesOf ast))"
  from assms(2) have "B \<in> set (map fst (functionBodiesOf ast))"
    by (auto dest!: map_of_SomeD intro: rev_image_eqI)
  with assms(3) have b: "B \<in> set (?f bodyA)"
    by (simp add: findFunctionsCalledInFunction_def)
  then have "?f bodyA \<noteq> []" by auto
  with assms(1) have "map_of (callGraph ast) A = Some (?f bodyA)"
    by (simp add: callGraph_def map_of_nonEmptyEntries [OF functionBodiesOf_distinct])
  then have "(A, ?f bodyA) \<in> set (callGraph ast)" by (rule map_of_SomeD)
  with b show ?thesis by blast
qed

lemma directSetters_entry:
  assumes "map_of (functionBodiesOf ast) A = Some bodyA"
    and "s \<in> set (setterNamesOf stateInfo)" and "s \<in> set (calleeNamesIn bodyA)"
  shows "s \<in> set (lookupOrEmpty (directSetters ast stateInfo) A)"
proof -
  let ?f = "findSettersCalledInFunction (setterNamesOf stateInfo)"
  from assms(2,3) have b: "s \<in> set (?f bodyA)"
    by (simp add: findSettersCalledInFunction_def)
  then have "?f bodyA \<noteq> []" by auto
  with assms(1) have "map_of (directSetters ast stateInfo) A = Some (?f bodyA)"
    by (simp add: directSetters_def map_of_nonEmptyEntries [OF functionBodiesOf_distinct])
  with b show ?thesis by (simp add: lookupOrEmpty_def)
qed



subsection \<open>State interactions\<close>

lemmas traverse_eval = traverse_def walk_unfold visitChild_def childRefs_def

lemma falsyGuardBody_firstPass: "firstPassOf (falsyGuardBody sv st) = emptyFirstPass"
  by (simp add: falsyGuardBody_def traverse_eval firstPassOf_def firstPassVisit_def
      firstPassCall_def argumentRefs_def)

lemma falsyGuardBody_env:
  "analysisEnvOf (falsyGuardBody sv st) [(sv, st)] refs lfs lineOf
   = \<lparr>envSetterNames = [st], envStateNames = [sv], envSetterToState = [st \<mapsto> sv],
      envRefVars = refs, envLocalFunctionSetters = lfs, envAsyncNodes = {},
      envCleanupNodes = {}, envLineOf = lineOf\<rparr>"
  by (simp add: analysisEnvOf_def falsyGuardBody_firstPass setterNamesOf_def stateNamesOf_def
      setterToStateOf_def resolveNamedCallbacks_def emptyFirstPass_def)

lemma falsyGuardBody_result:
  "analyzeStateInteractions (falsyGuardBody sv st) [(sv, st)] refs lfs lineOf
   = \<lparr>reads = [sv], modifications = [st], conditionalModifications = [], functionalUpdates = [],
      deferredModifications = [], guardedModifications = [], functionReferences = [],
      refMutations = [], cleanupModifications = []\<rparr>"
  apply (simp add: analyzeStateInteractions_def falsyGuardBody_env falsyGuardBody_firstPass)
  apply (simp add: falsyGuardBody_def traverse_eval mainVisit_def visitIdentifier_def
      visitCallExpression_def recordModification_def recordGuarded_def isInsideAsyncCallback_def
      isInsideCleanupFunction_def analyzeConditionalGuard_def getAncestorStack_def
      checkEarlyReturnPattern_def containsNode_def firstArgument_def removeDuplicates_def
      emptyInteraction_def emptyFirstPass_def uniq_def isReferencedIdentifier_def)
  done




text \<open>
  The five lists that the closing block of \<open>analyzeStateInteractions\<close> passes through a
  set never hold a name twice.
\<close>

lemma deduplicated_fields:
  "distinct (reads (analyzeStateInteractions hookBody stateInfo refs lfs lineOf))
   \<and> distinct (modifications (analyzeStateInteractions hookBody stateInfo refs lfs lineOf))
   \<and> distinct (conditionalModifications (analyzeStateInteractions hookBody stateInfo refs lfs lineOf))
   \<and> distinct (functionalUpdates (analyzeStateInteractions hookBody stateInfo refs lfs lineOf))
   \<and> distinct (deferredModifications (analyzeStateInteractions hookBody stateInfo refs lfs lineOf))"
  by (simp add: analyzeStateInteractions_def removeDuplicates_def)

text \<open>
  Claim C9, at the failing input. The closing block removes duplicates from \<open>reads\<close>,
  \<open>modifications\<close>, \<open>conditionalModifications\<close>, \<open>functionalUpdates\<close> and
  \<open>deferredModifications\<close> but leaves out \<open>cleanupModifications\<close>: for the effect
  \<open>() => { return () => { setCount(0); setCount(1); }; }\<close> the list holds \<open>setCount\<close>
  twice.
\<close>

theorem cleanup_modifications_keep_duplicates:
  "cleanupModifications
     (analyzeStateInteractions cleanupBody [(''count'', ''setCount'')] {} Map.empty (\<lambda>q. 0))
   = [''setCount'', ''setCount'']
   \<and> \<not> distinct (cleanupModifications
     (analyzeStateInteractions cleanupBody [(''count'', ''setCount'')] {} Map.empty (\<lambda>q. 0)))"
proof -
  have "cleanupModifications
     (analyzeStateInteractions cleanupBody [(''count'', ''setCount'')] {} Map.empty (\<lambda>q. 0))
   = [''setCount'', ''setCount'']"
    by code_simp
  then show ?thesis by simp
qed

subsection \<open>Effects without a dependency array\<close>

lemma effectFinding_inline:
  "effectFinding env p = Some finding \<Longrightarrow> inlineSingleArgumentEffect p"
  unfolding effectFinding_def inlineSingleArgumentEffect_def
  by (cases "pathPos p"; cases "pathNode p")
     (auto split: node.splits list.splits if_splits simp: length_Suc_conv)

lemma map_filter_Pair_set:
  "(a, b) \<in> set (List.map_filter (\<lambda>p. map_option (Pair p) (g p)) xs) \<longleftrightarrow> a \<in> set xs \<and> g a = Some b"
  by (induction xs) (auto simp: List.map_filter_simps split: option.splits)

lemma detectAt_set:
  "(p, finding) \<in> set (detectUseEffectWithoutDepsAt ast stateInfo fileName ignoredLine lineOf)
   \<longleftrightarrow> p \<in> set (traverse ast)
       \<and> effectFinding (detectEnvOf ast stateInfo fileName ignoredLine lineOf) p = Some finding"
  unfolding detectUseEffectWithoutDepsAt_def by (rule map_filter_Pair_set)

text \<open>
  Claim C10. Every finding of \<open>detectUseEffectWithoutDeps\<close> is pushed at the visit of a
  call expression whose callee is the identifier \<open>useEffect\<close> or \<open>useLayoutEffect\<close>,
  that has exactly one argument, and whose argument is an inline arrow function or function
  expression. A call whose argument list has any other length, or whose first argument is
  not an inline function (\<open>useEffect(doWork)\<close>), pushes no finding, whatever the setters
  its callback reaches; and an AST without an inline single-argument effect yields the empty
  list.
\<close>

theorem findings_only_for_inline_single_argument_effects:
  "(\<forall>(p, finding) \<in> set (detectUseEffectWithoutDepsAt ast stateInfo fileName ignoredLine lineOf).
      p \<in> set (traverse ast) \<and> inlineSingleArgumentEffect p)
   \<and> (pathNode p = Some (CallExpression callee args)
       \<and> (length args \<noteq> 1 \<or> \<not> isFunctionExpression (hd args))
       \<longrightarrow> (p, finding) \<notin> set (detectUseEffectWithoutDepsAt ast stateInfo fileName ignoredLine lineOf))
   \<and> ((\<forall>p \<in> set (traverse ast). \<not> inlineSingleArgumentEffect p)
       \<longrightarrow> detectUseEffectWithoutDeps ast stateInfo fileName ignoredLine lineOf = [])"
proof (intro conjI impI)
  show "\<forall>(p, finding) \<in> set (detectUseEffectWithoutDepsAt ast stateInfo fileName ignoredLine lineOf).
      p \<in> set (traverse ast) \<and> inlineSingleArgumentEffect p"
    by (auto simp: detectAt_set dest: effectFinding_inline)
next
  assume a: "pathNode p = Some (CallExpression callee args)
       \<and> (length args \<noteq> 1 \<or> \<not> isFunctionExpression (hd args))"
  then have "\<not> inlineSingleArgumentEffect p"
    by (auto simp: inlineSingleArgumentEffect_def split: node.splits list.splits)
  then show "(p, finding) \<notin> set (detectUseEffectWithoutDepsAt ast stateInfo fileName ignoredLine lineOf)"
    by (auto simp: detectAt_set dest: effectFinding_inline)
next
  assume a: "\<forall>p \<in> set (traverse ast). \<not> inlineSingleArgumentEffect p"
  have "detectUseEffectWithoutDepsAt ast stateInfo fileName ignoredLine lineOf = []"
  proof (cases "detectUseEffectWithoutDepsAt ast stateInfo fileName ignoredLine lineOf")
    case Nil
    then show ?thesis .
  next
    case (Cons x xs)
    obtain q f where x: "x = (q, f)" by (cases x)
    have "(q, f) \<in> set (detectUseEffectWithoutDepsAt ast stateInfo fileName ignoredLine lineOf)"
      unfolding Cons x by simp
    then have "q \<in> set (traverse ast)" and "inlineSingleArgumentEffect q"
      by (auto simp: detectAt_set dest: effectFinding_inline)
    with a show ?thesis by blast
  qed
  then show "detectUseEffectWithoutDeps ast stateInfo fileName ignoredLine lineOf = []"
    by (simp add: detectUseEffectWithoutDeps_def)
qed

text \<open>
  At the example program: the only finding comes from the fourth statement; the second
  statement passes \<open>doWork\<close>, which is known to call \<open>setCount\<close>, and is not reported; the
  third has two arguments and is not reported.
\<close>

theorem findings_witness:
  "map (\<lambda>(p, f). (pathPos p, haLine f, errorCode f)) effectsFindings = [(Some [3, 0], 13, ''RLD-201'')]
   \<and> inlineSingleArgumentEffect (fst (hd effectsFindings))
   \<and> functionsCallingSetters (callingSettersOf [''setCount''] effectsProgram) ''doWork''
       = Some [''setCount'']
   \<and> pathNode (traverse effectsProgram ! 8)
       = Some (CallExpression (Identifier ''useEffect'') [Identifier ''doWork''])
   \<and> (\<forall>finding. (traverse effectsProgram ! 8, finding) \<notin> set effectsFindings)
   \<and> map_option callArguments (pathNode (traverse effectsProgram ! 12))
       = Some [ArrowFunctionExpression [] (CallExpression (Identifier ''setCount'') [NumericLiteral 1]),
               ArrayExpression [Identifier ''count'']]
   \<and> (\<forall>finding. (traverse effectsProgram ! 12, finding) \<notin> set effectsFindings)
   \<and> detectUseEffectWithoutDeps namedEffectProgram [(''count'', ''setCount'')] ''App.tsx''
         (\<lambda>l. False) (\<lambda>q. 10 + hd q) = []"
proof -
  note T = findings_only_for_inline_single_argument_effects
  have a: "map (\<lambda>(p, f). (pathPos p, haLine f, errorCode f)) effectsFindings = [(Some [3, 0], 13, ''RLD-201'')]"
    by code_simp
  have b: "functionsCallingSetters (callingSettersOf [''setCount''] effectsProgram) ''doWork''
       = Some [''setCount'']"
    by code_simp
  have c: "pathNode (traverse effectsProgram ! 8)
       = Some (CallExpression (Identifier ''useEffect'') [Identifier ''doWork''])"
    by code_simp
  have d: "pathNode (traverse effectsProgram ! 12)
       = Some (CallExpression (Identifier ''useEffect'')
            [ArrowFunctionExpression [] (CallExpression (Identifier ''setCount'') [NumericLiteral 1]),
               ArrayExpression [Identifier ''count'']])"
    by code_simp
  have e: "\<forall>p \<in> set (traverse namedEffectProgram). \<not> inlineSingleArgumentEffect p"
    by code_simp
  have ne: "effectsFindings \<noteq> []"
    using a by auto
  obtain q f where h: "hd effectsFindings = (q, f)"
    by (cases "hd effectsFindings")
  have m: "(q, f) \<in> set effectsFindings"
    using ne h hd_in_set by metis
  have i: "inlineSingleArgumentEffect (fst (hd effectsFindings))"
    using T [where ast = effectsProgram and stateInfo = "[(''count'', ''setCount'')]"
        and fileName = "''App.tsx''" and ignoredLine = "\<lambda>l. False" and lineOf = "\<lambda>q. 10 + hd q",
        THEN conjunct1] m h
    unfolding effectsFindings_def by auto
  have j: "(traverse effectsProgram ! 8, finding) \<notin> set effectsFindings" for finding
    using T [where ast = effectsProgram and stateInfo = "[(''count'', ''setCount'')]"
        and fileName = "''App.tsx''" and ignoredLine = "\<lambda>l. False" and lineOf = "\<lambda>q. 10 + hd q"
        and p = "traverse effectsProgram ! 8" and finding = finding
        and callee = "Identifier ''useEffect''" and args = "[Identifier ''doWork'']"] c
    unfolding effectsFindings_def by simp
  have k: "(traverse effectsProgram ! 12, finding) \<notin> set effectsFindings" for finding
    using T [where ast = effectsProgram and stateInfo = "[(''count'', ''setCount'')]"
        and fileName = "''App.tsx''" and ignoredLine = "\<lambda>l. False" and lineOf = "\<lambda>q. 10 + hd q"
        and p = "traverse effectsProgram ! 12" and finding = finding
        and callee = "Identifier ''useEffect''"
        and args = "[ArrowFunctionExpression [] (CallExpression (Identifier ''setCount'') [NumericLiteral 1]),
               ArrayExpression [Identifier ''count'']]"] d
    unfolding effectsFindings_def by simp
  have l: "detectUseEffectWithoutDeps namedEffectProgram [(''count'', ''setCount'')] ''App.tsx''
         (\<lambda>l. False) (\<lambda>q. 10 + hd q) = []"
    using T [where ast = namedEffectProgram and stateInfo = "[(''count'', ''setCount'')]"
        and fileName = "''App.tsx''" and ignoredLine = "\<lambda>l. False" and lineOf = "\<lambda>q. 10 + hd q",
        THEN conjunct2, THEN conjunct2] e
    by blast
  from a i b c j d k l show ?thesis by simp
qed

subsection \<open>The buckets of the setter calls of a hook body\<close>

lemma walk_nonempty: "p \<in> set (walk q) \<Longrightarrow> p \<noteq> []"
proof (induction q arbitrary: p rule: walk.induct)
  case 1
  then show ?case by simp
next
  case (2 r anc)
  have "walk (r # anc) = concat (map (\<lambda>c. (c # r # anc) # walk (c # r # anc)) (childRefs r))"
    by (rule walk.simps(2))
  with "2.prems" obtain c where c: "c \<in> set (childRefs r)"
    and p: "p = c # r # anc \<or> p \<in> set (walk (c # r # anc))"
    by auto
  from p show ?case
  proof
    assume "p = c # r # anc"
    then show ?thesis by simp
  next
    assume "p \<in> set (walk (c # r # anc))"
    with "2.IH" [OF c] show ?thesis .
  qed
qed

lemma traverse_nonempty: "p \<in> set (traverse n) \<Longrightarrow> p \<noteq> []"
  unfolding traverse_def by (rule walk_nonempty)

lemma fold_noteReference_fields:
  "cleanupFunctionNodes (fold (noteReference r) args fp) = cleanupFunctionNodes fp"
  "localFunctions (fold (noteReference r) args fp) = localFunctions fp"
  "asyncCallbackNodes (fold (noteReference r) args fp) = asyncCallbackNodes fp"
  "namedAsyncCallbackRefs (fold (noteReference r) args fp) = namedAsyncCallbackRefs fp"
  by (induction args arbitrary: fp; simp add: noteReference_def split: node.splits)+

lemma noteAsyncArgument_fields:
  "cleanupFunctionNodes (noteAsyncArgument a fp) = cleanupFunctionNodes fp"
  "localFunctions (noteAsyncArgument a fp) = localFunctions fp"
  "asyncCallbackNodes (noteAsyncArgument a fp)
     = asyncCallbackNodes fp \<union> (if isFunctionExpression (snd a) then {fst a} else {})"
  "namedAsyncCallbackRefs (noteAsyncArgument a fp)
     = namedAsyncCallbackRefs fp \<union> set_option (identifierName (snd a))"
  by (cases "snd a"; simp add: noteAsyncArgument_def)+

lemma fold_noteAsyncArgument_cleanup:
  "cleanupFunctionNodes (fold noteAsyncArgument as fp) = cleanupFunctionNodes fp"
  by (induction as arbitrary: fp) (simp_all add: noteAsyncArgument_fields)

lemma fold_noteAsyncArgument_local:
  "localFunctions (fold noteAsyncArgument as fp) = localFunctions fp"
  by (induction as arbitrary: fp) (simp_all add: noteAsyncArgument_fields)

lemma fold_noteAsyncArgument_async:
  "asyncCallbackNodes (fold noteAsyncArgument as fp)
     = asyncCallbackNodes fp \<union> set (map fst (filter (\<lambda>a. isFunctionExpression (snd a)) as))"
  by (induction as arbitrary: fp) (auto simp: noteAsyncArgument_fields)

lemma fold_noteAsyncArgument_named:
  "namedAsyncCallbackRefs (fold noteAsyncArgument as fp)
     = namedAsyncCallbackRefs fp \<union> set (List.map_filter (\<lambda>a. identifierName (snd a)) as)"
  by (induction as arbitrary: fp)
     (auto simp: noteAsyncArgument_fields List.map_filter_simps split: option.splits)

lemmas fold_noteAsyncArgument_fields = fold_noteAsyncArgument_cleanup fold_noteAsyncArgument_local
  fold_noteAsyncArgument_async fold_noteAsyncArgument_named


lemma firstPassCall_fields:
  "cleanupFunctionNodes (firstPassCall call fp) = cleanupFunctionNodes fp"
  "localFunctions (firstPassCall call fp) = localFunctions fp"
  "asyncCallbackNodes (firstPassCall call fp)
     = asyncCallbackNodes fp \<union> set (inlineDeferredCallbacks (call # anc))"
  "namedAsyncCallbackRefs (firstPassCall call fp)
     = namedAsyncCallbackRefs fp \<union> set (namedDeferredCallbacks (call # anc))"
  by (simp_all add: firstPassCall_def inlineDeferredCallbacks_def namedDeferredCallbacks_def
      deferredReceiver_def fold_noteReference_fields fold_noteAsyncArgument_fields Let_def
      split: option.splits)

lemma not_call_no_callbacks:
  "callCallee (snd r) = None \<Longrightarrow> inlineDeferredCallbacks (r # anc) = []"
  "callCallee (snd r) = None \<Longrightarrow> namedDeferredCallbacks (r # anc) = []"
  by (simp_all add: inlineDeferredCallbacks_def namedDeferredCallbacks_def deferredReceiver_def)

lemma firstPassVisit_cleanup:
  "cleanupFunctionNodes (firstPassVisit p fp)
     = cleanupFunctionNodes fp \<union> set_option (returnedClosureAt p)"
  by (cases p; cases "snd (hd p)")
     (auto simp: firstPassVisit_def returnedClosureAt_def firstPassCall_fields
           split: option.splits node.splits)

lemma firstPassVisit_local:
  "localFunctions (firstPassVisit p fp)
     = (case localDefinitionAt p of
          None \<Rightarrow> localFunctions fp
        | Some (nm, q) \<Rightarrow> (localFunctions fp)(nm \<mapsto> q))"
  by (cases p; cases "snd (hd p)")
     (auto simp: firstPassVisit_def localDefinitionAt_def firstPassCall_fields
           split: option.splits node.splits)

lemma firstPassVisit_async:
  "asyncCallbackNodes (firstPassVisit p fp)
     = asyncCallbackNodes fp \<union> set (inlineDeferredCallbacks p)"
proof (cases p)
  case Nil
  then show ?thesis by (simp add: firstPassVisit_def inlineDeferredCallbacks_def)
next
  case (Cons r anc)
  show ?thesis
  proof (cases "callCallee (snd r)")
    case None
    then show ?thesis unfolding Cons
      by (cases "snd r")
         (auto simp: firstPassVisit_def not_call_no_callbacks split: option.splits node.splits)
  next
    case (Some c)
    then obtain args where "snd r = CallExpression c args"
      by (cases "snd r") auto
    then show ?thesis unfolding Cons
      by (simp add: firstPassVisit_def firstPassCall_fields(3) [where anc = anc])
  qed
qed

lemma firstPassVisit_named:
  "namedAsyncCallbackRefs (firstPassVisit p fp)
     = namedAsyncCallbackRefs fp \<union> set (namedDeferredCallbacks p)"
proof (cases p)
  case Nil
  then show ?thesis by (simp add: firstPassVisit_def namedDeferredCallbacks_def)
next
  case (Cons r anc)
  show ?thesis
  proof (cases "callCallee (snd r)")
    case None
    then show ?thesis unfolding Cons
      by (cases "snd r")
         (auto simp: firstPassVisit_def not_call_no_callbacks split: option.splits node.splits)
  next
    case (Some c)
    then obtain args where "snd r = CallExpression c args"
      by (cases "snd r") auto
    then show ?thesis unfolding Cons
      by (simp add: firstPassVisit_def firstPassCall_fields(4) [where anc = anc])
  qed
qed

lemma fold_firstPassVisit_cleanup:
  "cleanupFunctionNodes (fold firstPassVisit ps fp)
     = cleanupFunctionNodes fp \<union> set (List.map_filter returnedClosureAt ps)"
  by (induction ps arbitrary: fp)
     (auto simp: firstPassVisit_cleanup List.map_filter_simps split: option.splits)

lemma fold_firstPassVisit_async:
  "asyncCallbackNodes (fold firstPassVisit ps fp)
     = asyncCallbackNodes fp \<union> set (concat (map inlineDeferredCallbacks ps))"
  by (induction ps arbitrary: fp) (auto simp: firstPassVisit_async)

lemma fold_firstPassVisit_named:
  "namedAsyncCallbackRefs (fold firstPassVisit ps fp)
     = namedAsyncCallbackRefs fp \<union> set (concat (map namedDeferredCallbacks ps))"
  by (induction ps arbitrary: fp) (auto simp: firstPassVisit_named)

lemma fold_firstPassVisit_local:
  "localFunctions (fold firstPassVisit ps fp)
     = localFunctions fp ++ map_of (rev (List.map_filter localDefinitionAt ps))"
proof (induction ps arbitrary: fp)
  case Nil
  then show ?case by (simp add: List.map_filter_simps)
next
  case (Cons p ps)
  show ?case
  proof (cases "localDefinitionAt p")
    case None
    then show ?thesis by (simp add: Cons.IH firstPassVisit_local List.map_filter_simps)
  next
    case (Some d)
    obtain nm q where d: "d = (nm, q)" by (cases d)
    have "(localFunctions fp)(nm \<mapsto> q) ++ map_of (rev (List.map_filter localDefinitionAt ps))
        = localFunctions fp ++ (map_of (rev (List.map_filter localDefinitionAt ps)) ++ [nm \<mapsto> q] ++ map_of (rev (List.map_filter localDefinitionAt ps)))"
      by (rule ext) (simp add: map_add_def split: option.splits)
    moreover have "map_of (rev (List.map_filter localDefinitionAt ps) @ [(nm, q)])
        = [nm \<mapsto> q] ++ map_of (rev (List.map_filter localDefinitionAt ps))"
      by (rule ext) (simp add: map_add_def split: option.splits)
    ultimately show ?thesis
      using Some d
      by (simp add: Cons.IH firstPassVisit_local List.map_filter_simps map_add_def fun_eq_iff
               split: option.splits)
  qed
qed

lemma set_map_filter:
  "set (List.map_filter m xs) = {y. \<exists>x \<in> set xs. m x = Some y}"
  by (induction xs) (auto simp: List.map_filter_simps split: option.splits)

lemma these_image_set:
  "Option.these (m ` set xs) = set (List.map_filter m xs)"
  by (auto simp: in_these_eq set_map_filter image_iff) metis+

lemma envAsyncNodes_eq:
  "envAsyncNodes (analysisEnvOf hookBody stateInfo refs lfs lineOf) = set (deferredCallbacks hookBody)"
proof -
  let ?fp = "firstPassOf hookBody"
  have a: "asyncCallbackNodes ?fp = set (concat (map inlineDeferredCallbacks (traverse hookBody)))"
    by (simp add: firstPassOf_def emptyFirstPass_def fold_firstPassVisit_async del: set_concat)
  have n: "namedAsyncCallbackRefs ?fp = set (concat (map namedDeferredCallbacks (traverse hookBody)))"
    by (simp add: firstPassOf_def emptyFirstPass_def fold_firstPassVisit_named del: set_concat)
  have l: "localFunctions ?fp = localDefinitionOf hookBody"
    by (simp add: firstPassOf_def emptyFirstPass_def fold_firstPassVisit_local localDefinitionOf_def)
  have "envAsyncNodes (analysisEnvOf hookBody stateInfo refs lfs lineOf) = resolveNamedCallbacks ?fp"
    by (simp add: analysisEnvOf_def)
  also have "\<dots> = set (concat (map inlineDeferredCallbacks (traverse hookBody)))
      \<union> Option.these (localDefinitionOf hookBody ` set (concat (map namedDeferredCallbacks (traverse hookBody))))"
    unfolding resolveNamedCallbacks_def a n l ..
  also have "\<dots> = set (deferredCallbacks hookBody)"
    unfolding these_image_set deferredCallbacks_def set_append ..
  finally show ?thesis .
qed

lemma envCleanupNodes_eq:
  "envCleanupNodes (analysisEnvOf hookBody stateInfo refs lfs lineOf) = set (returnedClosures hookBody)"
  by (simp add: analysisEnvOf_def firstPassOf_def emptyFirstPass_def fold_firstPassVisit_cleanup
      returnedClosures_def)


lemma bucketOf_env:
  assumes "env = analysisEnvOf hookBody stateInfo refs lfs lineOf"
  shows "bucketOf hookBody p =
     (if isInsideAsyncCallback (envAsyncNodes env) p then Deferred
      else if isInsideCleanupFunction (envCleanupNodes env) p then Cleanup
      else Immediate)"
  unfolding assms
  by (simp add: bucketOf_def insideOneOf_def isInsideAsyncCallback_def isInsideCleanupFunction_def
      envAsyncNodes_eq envCleanupNodes_eq list_ex_iff)

lemma guardAt_env:
  assumes "env = analysisEnvOf hookBody stateInfo refs lfs lineOf"
  shows "guardAt stateInfo (call # anc) x
     = analyzeConditionalGuard call (getAncestorStack (call # anc)) x (envSetterToState env x)"
  unfolding assms by (simp add: guardAt_def analysisEnvOf_def)

lemma recordModification_fields:
  assumes env: "env = analysisEnvOf hookBody stateInfo refs lfs lineOf" and p: "p \<noteq> []"
  shows "deferredModifications (recordModification env p x s)
           = deferredModifications s @ (if bucketOf hookBody p = Deferred then [x] else [])"
    and "cleanupModifications (recordModification env p x s)
           = cleanupModifications s @ (if bucketOf hookBody p = Cleanup then [x] else [])"
    and "modifications (recordModification env p x s)
           = modifications s @ (if bucketOf hookBody p = Immediate then filter (\<lambda>x. guardAt stateInfo p x = None) [x] else [])"
    and "conditionalModifications (recordModification env p x s)
           = conditionalModifications s @ (if bucketOf hookBody p = Immediate then filter (unsafelyGuarded stateInfo p) [x] else [])"
    and "guardedModifications (recordModification env p x s)
           = guardedModifications s @ (if bucketOf hookBody p = Immediate then List.map_filter (guardAt stateInfo p) [x] else [])"
proof -
  from p obtain call anc where pc: "p = call # anc" by (cases p) auto
  note g = guardAt_env [OF env, of call anc x]
  note b = bucketOf_env [OF env, of p]
  show "deferredModifications (recordModification env p x s)
           = deferredModifications s @ (if bucketOf hookBody p = Deferred then [x] else [])"
    unfolding b by (simp add: recordModification_def recordGuarded_def pc Let_def split: option.splits)
  show "cleanupModifications (recordModification env p x s)
           = cleanupModifications s @ (if bucketOf hookBody p = Cleanup then [x] else [])"
    unfolding b by (simp add: recordModification_def recordGuarded_def pc Let_def split: option.splits)
  show "modifications (recordModification env p x s)
           = modifications s @ (if bucketOf hookBody p = Immediate then filter (\<lambda>x. guardAt stateInfo p x = None) [x] else [])"
    unfolding b using g
    by (simp add: recordModification_def recordGuarded_def pc Let_def split: option.splits)
  show "conditionalModifications (recordModification env p x s)
           = conditionalModifications s @ (if bucketOf hookBody p = Immediate then filter (unsafelyGuarded stateInfo p) [x] else [])"
    unfolding b using g
    by (simp add: recordModification_def recordGuarded_def pc Let_def unsafelyGuarded_def
             split: option.splits)
  show "guardedModifications (recordModification env p x s)
           = guardedModifications s @ (if bucketOf hookBody p = Immediate then List.map_filter (guardAt stateInfo p) [x] else [])"
    unfolding b using g
    by (simp add: recordModification_def recordGuarded_def pc Let_def List.map_filter_simps
             split: option.splits)
qed


lemma fold_recordModification_fields:
  assumes env: "env = analysisEnvOf hookBody stateInfo refs lfs lineOf" and p: "p \<noteq> []"
  shows "deferredModifications (fold (recordModification env p) xs s)
           = deferredModifications s @ (if bucketOf hookBody p = Deferred then xs else [])"
    and "cleanupModifications (fold (recordModification env p) xs s)
           = cleanupModifications s @ (if bucketOf hookBody p = Cleanup then xs else [])"
    and "modifications (fold (recordModification env p) xs s)
           = modifications s @ (if bucketOf hookBody p = Immediate then filter (\<lambda>x. guardAt stateInfo p x = None) xs else [])"
    and "conditionalModifications (fold (recordModification env p) xs s)
           = conditionalModifications s @ (if bucketOf hookBody p = Immediate then filter (unsafelyGuarded stateInfo p) xs else [])"
    and "guardedModifications (fold (recordModification env p) xs s)
           = guardedModifications s @ (if bucketOf hookBody p = Immediate then List.map_filter (guardAt stateInfo p) xs else [])"
proof -
  note r = recordModification_fields [OF env p]
  show "deferredModifications (fold (recordModification env p) xs s)
           = deferredModifications s @ (if bucketOf hookBody p = Deferred then xs else [])"
    by (induction xs arbitrary: s) (simp_all add: r)
  show "cleanupModifications (fold (recordModification env p) xs s)
           = cleanupModifications s @ (if bucketOf hookBody p = Cleanup then xs else [])"
    by (induction xs arbitrary: s) (simp_all add: r)
  show "modifications (fold (recordModification env p) xs s)
           = modifications s @ (if bucketOf hookBody p = Immediate then filter (\<lambda>x. guardAt stateInfo p x = None) xs else [])"
    by (induction xs arbitrary: s) (simp_all add: r)
  show "conditionalModifications (fold (recordModification env p) xs s)
           = conditionalModifications s @ (if bucketOf hookBody p = Immediate then filter (unsafelyGuarded stateInfo p) xs else [])"
    by (induction xs arbitrary: s) (simp_all add: r)
  show "guardedModifications (fold (recordModification env p) xs s)
           = guardedModifications s @ (if bucketOf hookBody p = Immediate then List.map_filter (guardAt stateInfo p) xs else [])"
    by (induction xs arbitrary: s) (simp_all add: r List.map_filter_simps split: option.splits)
qed

lemma other_visits_keep:
  "deferredModifications (visitMember env p s) = deferredModifications s"
  "cleanupModifications (visitMember env p s) = cleanupModifications s"
  "modifications (visitMember env p s) = modifications s"
  "conditionalModifications (visitMember env p s) = conditionalModifications s"
  "guardedModifications (visitMember env p s) = guardedModifications s"
  "deferredModifications (visitIdentifier env p s) = deferredModifications s"
  "cleanupModifications (visitIdentifier env p s) = cleanupModifications s"
  "modifications (visitIdentifier env p s) = modifications s"
  "conditionalModifications (visitIdentifier env p s) = conditionalModifications s"
  "guardedModifications (visitIdentifier env p s) = guardedModifications s"
  "deferredModifications (visitAssignment env p s) = deferredModifications s"
  "cleanupModifications (visitAssignment env p s) = cleanupModifications s"
  "modifications (visitAssignment env p s) = modifications s"
  "conditionalModifications (visitAssignment env p s) = conditionalModifications s"
  "guardedModifications (visitAssignment env p s) = guardedModifications s"
  by (simp_all add: visitMember_def visitIdentifier_def visitAssignment_def
      split: option.splits node.splits)

lemma visitCallExpression_as_fold:
  assumes env: "env = analysisEnvOf hookBody stateInfo refs lfs lineOf"
  shows "\<exists>fu. visitCallExpression env p s
      = (fold (recordModification env p) (settersReachedAt (setterNamesOf stateInfo) lfs p) s)
          \<lparr>functionalUpdates := fu\<rparr>"
proof -
  have e: "envSetterNames env = setterNamesOf stateInfo" "envLocalFunctionSetters env = lfs"
    unfolding env by (simp_all add: analysisEnvOf_def)
  have triv: "\<And>t. \<exists>fu. t = t\<lparr>functionalUpdates := fu\<rparr>"
    by (rule_tac x = "functionalUpdates t" in exI) simp
  show ?thesis
  proof (cases "pathNode p")
    case None
    then show ?thesis
      using triv by (simp add: visitCallExpression_def settersReachedAt_def)
  next
    case (Some n)
    show ?thesis
    proof (cases "\<exists>c args. n = CallExpression (Identifier c) args")
      case True
      then obtain c args where n: "n = CallExpression (Identifier c) args" by blast
      show ?thesis
      proof (cases "c \<in> set (setterNamesOf stateInfo)")
        case True
        then show ?thesis
          using triv Some n e
          by (auto simp: visitCallExpression_def settersReachedAt_def Let_def)
      next
        case False
        then show ?thesis
          using triv Some n e
          by (auto simp: visitCallExpression_def settersReachedAt_def split: option.splits)
      qed
    next
      case False
      then have "visitCallExpression env p s = s" "settersReachedAt (setterNamesOf stateInfo) lfs p = []"
        using Some by (auto simp: visitCallExpression_def settersReachedAt_def split: node.splits)
      then show ?thesis using triv by simp
    qed
  qed
qed


lemma settersReachedAt_not_call:
  "(\<And>callee args. pathNode p \<noteq> Some (CallExpression callee args))
     \<Longrightarrow> settersReachedAt sn lfs p = []"
  by (auto simp: settersReachedAt_def split: option.splits node.splits)

lemma mainVisit_fields:
  assumes env: "env = analysisEnvOf hookBody stateInfo refs lfs lineOf" and p: "p \<noteq> []"
  shows "deferredModifications (mainVisit env p s)
           = deferredModifications s @ recordedIn hookBody stateInfo lfs Deferred p"
    and "cleanupModifications (mainVisit env p s)
           = cleanupModifications s @ recordedIn hookBody stateInfo lfs Cleanup p"
    and "modifications (mainVisit env p s)
           = modifications s @ filter (\<lambda>x. guardAt stateInfo p x = None) (recordedIn hookBody stateInfo lfs Immediate p)"
    and "conditionalModifications (mainVisit env p s)
           = conditionalModifications s @ filter (unsafelyGuarded stateInfo p) (recordedIn hookBody stateInfo lfs Immediate p)"
    and "guardedModifications (mainVisit env p s)
           = guardedModifications s @ List.map_filter (guardAt stateInfo p) (recordedIn hookBody stateInfo lfs Immediate p)"
proof -
  let ?xs = "settersReachedAt (setterNamesOf stateInfo) lfs p"
  have "\<exists>fu. mainVisit env p s = (fold (recordModification env p) ?xs s)\<lparr>functionalUpdates := fu\<rparr>
      \<or> (?xs = [] \<and> (mainVisit env p s = s \<or> mainVisit env p s = visitMember env p s
            \<or> mainVisit env p s = visitIdentifier env p s \<or> mainVisit env p s = visitAssignment env p s))"
  proof (cases "\<exists>callee args. pathNode p = Some (CallExpression callee args)")
    case True
    then have "mainVisit env p s = visitCallExpression env p s"
      by (auto simp: mainVisit_def)
    with visitCallExpression_as_fold [OF env, of p s] show ?thesis by auto
  next
    case False
    then have "?xs = []"
      by (intro settersReachedAt_not_call) auto
    moreover have "mainVisit env p s = s \<or> mainVisit env p s = visitMember env p s
            \<or> mainVisit env p s = visitIdentifier env p s \<or> mainVisit env p s = visitAssignment env p s"
      using False by (auto simp: mainVisit_def split: option.splits node.splits)
    ultimately show ?thesis by simp
  qed
  then consider fu where "mainVisit env p s = (fold (recordModification env p) ?xs s)\<lparr>functionalUpdates := fu\<rparr>"
    | "?xs = []" "mainVisit env p s = s \<or> mainVisit env p s = visitMember env p s
            \<or> mainVisit env p s = visitIdentifier env p s \<or> mainVisit env p s = visitAssignment env p s"
    by blast
  then have all: "deferredModifications (mainVisit env p s)
           = deferredModifications s @ recordedIn hookBody stateInfo lfs Deferred p
    \<and> cleanupModifications (mainVisit env p s)
           = cleanupModifications s @ recordedIn hookBody stateInfo lfs Cleanup p
    \<and> modifications (mainVisit env p s)
           = modifications s @ filter (\<lambda>x. guardAt stateInfo p x = None) (recordedIn hookBody stateInfo lfs Immediate p)
    \<and> conditionalModifications (mainVisit env p s)
           = conditionalModifications s @ filter (unsafelyGuarded stateInfo p) (recordedIn hookBody stateInfo lfs Immediate p)
    \<and> guardedModifications (mainVisit env p s)
           = guardedModifications s @ List.map_filter (guardAt stateInfo p) (recordedIn hookBody stateInfo lfs Immediate p)"
  proof cases
    case 1
    then show ?thesis
      by (simp add: fold_recordModification_fields [OF env p] recordedIn_def List.map_filter_simps)
  next
    case 2
    from 2(2) show ?thesis
      by (elim disjE) (simp_all add: 2(1) other_visits_keep recordedIn_def List.map_filter_simps)
  qed
  from all show "deferredModifications (mainVisit env p s)
           = deferredModifications s @ recordedIn hookBody stateInfo lfs Deferred p" by simp
  from all show "cleanupModifications (mainVisit env p s)
           = cleanupModifications s @ recordedIn hookBody stateInfo lfs Cleanup p" by simp
  from all show "modifications (mainVisit env p s)
           = modifications s @ filter (\<lambda>x. guardAt stateInfo p x = None) (recordedIn hookBody stateInfo lfs Immediate p)" by simp
  from all show "conditionalModifications (mainVisit env p s)
           = conditionalModifications s @ filter (unsafelyGuarded stateInfo p) (recordedIn hookBody stateInfo lfs Immediate p)" by simp
  from all show "guardedModifications (mainVisit env p s)
           = guardedModifications s @ List.map_filter (guardAt stateInfo p) (recordedIn hookBody stateInfo lfs Immediate p)" by simp
qed

lemma fold_mainVisit_fields:
  assumes env: "env = analysisEnvOf hookBody stateInfo refs lfs lineOf"
    and ps: "\<And>p. p \<in> set ps \<Longrightarrow> p \<noteq> []"
  shows "deferredModifications (fold (mainVisit env) ps s)
           = deferredModifications s @ concat (map (recordedIn hookBody stateInfo lfs Deferred) ps)"
    and "cleanupModifications (fold (mainVisit env) ps s)
           = cleanupModifications s @ concat (map (recordedIn hookBody stateInfo lfs Cleanup) ps)"
    and "modifications (fold (mainVisit env) ps s)
           = modifications s @ concat (map (\<lambda>p. filter (\<lambda>x. guardAt stateInfo p x = None) (recordedIn hookBody stateInfo lfs Immediate p)) ps)"
    and "conditionalModifications (fold (mainVisit env) ps s)
           = conditionalModifications s @ concat (map (\<lambda>p. filter (unsafelyGuarded stateInfo p) (recordedIn hookBody stateInfo lfs Immediate p)) ps)"
    and "guardedModifications (fold (mainVisit env) ps s)
           = guardedModifications s @ concat (map (\<lambda>p. List.map_filter (guardAt stateInfo p) (recordedIn hookBody stateInfo lfs Immediate p)) ps)"
  using ps
  by (induction ps arbitrary: s; simp add: mainVisit_fields [OF env])+

text \<open>
  Claim C1, with the closures that count as cleanup stated as the code finds them. Every
  call expression of the body is in one bucket, fixed by its position alone: deferred when
  one of its ancestors is a function expression passed inline to a deferred receiver, or
  the local definition of a name passed to one; otherwise cleanup when one of its ancestors
  is a function expression that is the argument of a \<open>return\<close> statement anywhere in the
  body; otherwise immediate. The lists of the result are the setters of the calls of the
  matching bucket in traversal order: \<open>deferredModifications\<close> those of the deferred
  calls, \<open>cleanupModifications\<close> those of the cleanup calls, and the immediate calls go to
  \<open>modifications\<close> when the guard analysis finds no guard, to \<open>guardedModifications\<close> when
  it finds one, and then also to \<open>conditionalModifications\<close> when that guard is not safe.
  A direct call of a known setter contributes that setter, once, to its own bucket and
  nothing to the other two.
\<close>

theorem setter_calls_recorded_by_bucket:
  "deferredModifications (analyzeStateInteractions hookBody stateInfo refs lfs lineOf)
     = uniq (concat (map (recordedIn hookBody stateInfo lfs Deferred) (traverse hookBody)))
   \<and> cleanupModifications (analyzeStateInteractions hookBody stateInfo refs lfs lineOf)
     = concat (map (recordedIn hookBody stateInfo lfs Cleanup) (traverse hookBody))
   \<and> modifications (analyzeStateInteractions hookBody stateInfo refs lfs lineOf)
     = uniq (concat (map (\<lambda>p. filter (\<lambda>x. guardAt stateInfo p x = None)
                                 (recordedIn hookBody stateInfo lfs Immediate p))
                      (traverse hookBody)))
   \<and> conditionalModifications (analyzeStateInteractions hookBody stateInfo refs lfs lineOf)
     = uniq (concat (map (\<lambda>p. filter (unsafelyGuarded stateInfo p)
                                 (recordedIn hookBody stateInfo lfs Immediate p))
                      (traverse hookBody)))
   \<and> guardedModifications (analyzeStateInteractions hookBody stateInfo refs lfs lineOf)
     = concat (map (\<lambda>p. List.map_filter (guardAt stateInfo p)
                                 (recordedIn hookBody stateInfo lfs Immediate p))
                (traverse hookBody))
   \<and> (pathNode p = Some (CallExpression (Identifier setr) args)
        \<and> setr \<in> set (setterNamesOf stateInfo)
       \<longrightarrow> recordedIn hookBody stateInfo lfs b p = (if bucketOf hookBody p = b then [setr] else []))"
proof -
  note f = fold_mainVisit_fields [OF refl traverse_nonempty]
  show ?thesis
    by (simp add: analyzeStateInteractions_def removeDuplicates_def f emptyInteraction_def
        recordedIn_def settersReachedAt_def)
qed

end
